theory Spec2Isabelle
  imports Main "HOL-Library.Word"
begin

unbundle bit_operations_syntax

section \<open>Go's \<open>net\<close> package: addresses, masks and networks\<close>

text \<open>
  The cluster aggregate (\<open>internal/pkg/cluster/cluster.go\<close>) allocates VPN addresses with
  Go's \<open>net\<close> and \<open>math/big\<close> packages. The functions it calls are embedded here as the
  standard library of the repository's Go release defines them, loop by loop. A
  \<open>net.IP\<close> and a \<open>net.IPMask\<close> are byte slices; the nil slice is the empty list.
  Go's \<open>int\<close> values are \<open>int\<close>, lengths and indices are \<open>nat\<close>.
\<close>

type_synonym byte = "8 word"
type_synonym IP = "byte list"
type_synonym IPMask = "byte list"

record IPNet =
  IP :: IP
  Mask :: IPMask

definition IPv4len :: nat where
  "IPv4len = 4"

definition IPv6len :: nat where
  "IPv6len = 16"

definition v4InV6Prefix :: "byte list" where
  "v4InV6Prefix = [0, 0, 0, 0, 0, 0, 0, 0, 0, 0, 0xff, 0xff]"

definition IPv4 :: "byte \<Rightarrow> byte \<Rightarrow> byte \<Rightarrow> byte \<Rightarrow> IP" where
  "IPv4 a b c d = v4InV6Prefix @ [a, b, c, d]"

definition IP_To4 :: "IP \<Rightarrow> IP" where
  "IP_To4 ip =
     (if length ip = IPv4len then ip
      else if length ip = IPv6len \<and> list_all (\<lambda>b. b = 0) (take 10 ip)
                \<and> ip ! 10 = 0xff \<and> ip ! 11 = 0xff
      then drop 12 ip
      else [])"

definition IP_To16 :: "IP \<Rightarrow> IP" where
  "IP_To16 ip =
     (if length ip = IPv4len then IPv4 (ip ! 0) (ip ! 1) (ip ! 2) (ip ! 3)
      else if length ip = IPv6len then ip
      else [])"

text \<open>The loop of \<open>CIDRMask\<close>: \<open>l\<close> bytes are still to be written, \<open>n\<close> ones are left.\<close>

fun cidr_bytes :: "nat \<Rightarrow> nat \<Rightarrow> byte list" where
  "cidr_bytes 0 n = []"
| "cidr_bytes (Suc l) n =
     (if 8 \<le> n then 0xff # cidr_bytes l (n - 8)
      else NOT (drop_bit n 0xff) # cidr_bytes l 0)"

definition CIDRMask :: "nat \<Rightarrow> nat \<Rightarrow> IPMask" where
  "CIDRMask ones bits =
     (if bits \<noteq> 8 * IPv4len \<and> bits \<noteq> 8 * IPv6len then []
      else if bits < ones then []
      else cidr_bytes (bits div 8) ones)"

definition allFF :: "byte list \<Rightarrow> bool" where
  "allFF b = list_all (\<lambda>c. c = 0xff) b"

definition IP_Mask :: "IP \<Rightarrow> IPMask \<Rightarrow> IP" where
  "IP_Mask ip0 mask0 =
     (let mask = (if length mask0 = IPv6len \<and> length ip0 = IPv4len \<and> allFF (take 12 mask0)
                  then drop 12 mask0 else mask0);
          ip = (if length mask = IPv4len \<and> length ip0 = IPv6len \<and> take 12 ip0 = v4InV6Prefix
                then drop 12 ip0 else ip0)
      in if length ip \<noteq> length mask then [] else map2 (AND) ip mask)"

definition networkNumberAndMask :: "IPNet \<Rightarrow> IP \<times> IPMask" where
  "networkNumberAndMask n =
     (let ip4 = IP_To4 (IP n);
          ip = (if ip4 = [] then IP n else ip4)
      in if ip4 = [] \<and> length ip \<noteq> IPv6len then ([], [])
         else if length (Mask n) = IPv4len then
           (if length ip \<noteq> IPv4len then ([], []) else (ip, Mask n))
         else if length (Mask n) = IPv6len then
           (if length ip = IPv4len then (ip, drop 12 (Mask n)) else (ip, Mask n))
         else ([], []))"

definition IPNet_Contains :: "IPNet \<Rightarrow> IP \<Rightarrow> bool" where
  "IPNet_Contains n ip0 =
     (case networkNumberAndMask n of (nn, m) \<Rightarrow>
        let x = IP_To4 ip0;
            ip = (if x \<noteq> [] then x else ip0);
            l = length ip
        in if l \<noteq> length nn then False
           else list_all (\<lambda>i. nn ! i AND m ! i = ip ! i AND m ! i) [0..<l])"

subsection \<open>Rendering\<close>

definition hexDigit :: string where
  "hexDigit = ''0123456789abcdef''"

text \<open>Decimal digits of a non-negative number (\<open>ubtoa\<close> for a byte, \<open>uitoa\<close> for a
  prefix length).\<close>

function itoa :: "int \<Rightarrow> string" where
  "itoa n =
     (if n < 10 then [hexDigit ! nat n]
      else itoa (n div 10) @ [hexDigit ! nat (n mod 10)])"
  by pat_completeness auto
termination
  by (relation "measure nat") auto

declare itoa.simps [simp del]

text \<open>\<open>appendHex\<close>: lower-case hexadecimal digits without leading zeros.\<close>

function appendHex :: "int \<Rightarrow> string" where
  "appendHex n =
     (if n < 16 then [hexDigit ! nat n]
      else appendHex (n div 16) @ [hexDigit ! nat (n mod 16)])"
  by pat_completeness auto
termination
  by (relation "measure nat") auto

declare appendHex.simps [simp del]

definition hexString :: "byte list \<Rightarrow> string" where
  "hexString b =
     concat (map (\<lambda>tn. [hexDigit ! (unat tn div 16), hexDigit ! (unat tn mod 16)]) b)"

text \<open>\<open>simpleMaskLength\<close>: the number of leading ones of a mask whose other bits are
  zero; \<open>None\<close> is Go's \<open>-1\<close>. \<open>leading_ones\<close> is the inner loop on the first byte that
  is not \<open>0xff\<close>.\<close>

fun leading_ones :: "nat \<Rightarrow> byte \<Rightarrow> nat \<times> byte" where
  "leading_ones 0 v = (0, v)"
| "leading_ones (Suc k) v =
     (if v AND 0x80 \<noteq> 0 then (case leading_ones k (push_bit 1 v) of (n, w) \<Rightarrow> (Suc n, w))
      else (0, v))"

fun simpleMaskLength :: "IPMask \<Rightarrow> nat option" where
  "simpleMaskLength [] = Some 0"
| "simpleMaskLength (v # rest) =
     (if v = 0xff then map_option (\<lambda>n. n + 8) (simpleMaskLength rest)
      else case leading_ones 8 v of (n, w) \<Rightarrow>
        if w \<noteq> 0 then None
        else if list_all (\<lambda>b. b = 0) rest then Some n else None)"

definition ipv4_String :: "IP \<Rightarrow> string" where
  "ipv4_String p4 =
     itoa (uint (p4 ! 0)) @ ''.'' @ itoa (uint (p4 ! 1)) @ ''.'' @
     itoa (uint (p4 ! 2)) @ ''.'' @ itoa (uint (p4 ! 3))"

text \<open>\<open>IP.String\<close> on a 16-byte address looks for the longest run of zero groups. The
  inner loop: from byte index \<open>j\<close>, the end of the run of zero 16-bit groups.\<close>

function zero_run :: "IP \<Rightarrow> nat \<Rightarrow> nat" where
  "zero_run p j =
     (if j < IPv6len \<and> p ! j = 0 \<and> p ! (j + 1) = 0 then zero_run p (j + 2) else j)"
  by pat_completeness auto
termination
  by (relation "measure (\<lambda>(p, j). IPv6len - j)") auto

declare zero_run.simps [simp del]

text \<open>The outer loop, with \<open>e0\<close> and \<open>e1\<close> the bounds of the best run so far (\<open>-1\<close> when
  there is none). After a run is taken, Go sets \<open>i = j\<close> and the loop adds 2.\<close>

function longest_run :: "IP \<Rightarrow> nat \<Rightarrow> int \<Rightarrow> int \<Rightarrow> int \<times> int" where
  "longest_run p i e0 e1 =
     (if i < IPv6len then
        (let j = zero_run p i in
         if i < j \<and> e1 - e0 < int j - int i
         then longest_run p (j + 2) (int i) (int j)
         else longest_run p (i + 2) e0 e1)
      else (e0, e1))"
  by pat_completeness auto
termination
  by (relation "measure (\<lambda>(p, i, e0, e1). IPv6len - i)") auto

declare longest_run.simps [simp del]

definition group :: "IP \<Rightarrow> nat \<Rightarrow> int" where
  "group p i = uint (p ! i) * 256 + uint (p ! (i + 1))"

text \<open>The printing loop, \<open>i\<close> the byte index. The search above returns \<open>e0 < e1\<close>
  whenever \<open>e0\<close> is an index, which is what lets the loop end.\<close>

function print6 :: "IP \<Rightarrow> int \<Rightarrow> int \<Rightarrow> nat \<Rightarrow> string" where
  "print6 p e0 e1 i =
     (if i < IPv6len then
        (if int i = e0 \<and> e0 < e1 then
           (if IPv6len \<le> nat e1 then ''::''
            else ''::'' @ appendHex (group p (nat e1)) @ print6 p e0 e1 (nat e1 + 2))
         else (if 0 < i then '':'' else []) @ appendHex (group p i) @ print6 p e0 e1 (i + 2))
      else [])"
  by pat_completeness auto
termination
  by (relation "measure (\<lambda>(p, e0, e1, i). IPv6len - i)") auto

declare print6.simps [simp del]

definition IP_String :: "IP \<Rightarrow> string" where
  "IP_String ip =
     (if length ip = 0 then ''<nil>''
      else if length (IP_To4 ip) = IPv4len then ipv4_String (IP_To4 ip)
      else if length ip \<noteq> IPv6len then ''?'' @ hexString ip
      else (case longest_run ip 0 (-1) (-1) of (e0, e1) \<Rightarrow>
              if e1 - e0 \<le> 2 then print6 ip (-1) (-1) 0 else print6 ip e0 e1 0))"

definition IPMask_String :: "IPMask \<Rightarrow> string" where
  "IPMask_String m = (if length m = 0 then ''<nil>'' else hexString m)"

definition IPNet_String :: "IPNet \<Rightarrow> string" where
  "IPNet_String n =
     (case networkNumberAndMask n of (nn, m) \<Rightarrow>
        if nn = [] \<or> m = [] then ''<nil>''
        else (case simpleMaskLength m of
                None \<Rightarrow> IP_String nn @ ''/'' @ IPMask_String m
              | Some l \<Rightarrow> IP_String nn @ ''/'' @ itoa (int l)))"

subsection \<open>Parsing\<close>

definition big :: int where
  "big = 0xFFFFFF"

definition isDigit :: "char \<Rightarrow> bool" where
  "isDigit c =
     (of_char (CHR ''0'') \<le> (of_char c :: int) \<and> (of_char c :: int) \<le> of_char (CHR ''9''))"

definition isLowerHex :: "char \<Rightarrow> bool" where
  "isLowerHex c =
     (of_char (CHR ''a'') \<le> (of_char c :: int) \<and> (of_char c :: int) \<le> of_char (CHR ''f''))"

definition isUpperHex :: "char \<Rightarrow> bool" where
  "isUpperHex c =
     (of_char (CHR ''A'') \<le> (of_char c :: int) \<and> (of_char c :: int) \<le> of_char (CHR ''F''))"

text \<open>\<open>dtoi\<close> and \<open>xtoi\<close> return the number, the characters consumed and success.\<close>

fun dtoi_loop :: "string \<Rightarrow> int \<Rightarrow> nat \<Rightarrow> int \<times> nat \<times> bool" where
  "dtoi_loop [] n i = (n, i, True)"
| "dtoi_loop (c # s) n i =
     (if isDigit c then
        (let n' = n * 10 + (of_char c - of_char (CHR ''0'')) in
         if big \<le> n' then (big, i, False) else dtoi_loop s n' (i + 1))
      else (n, i, True))"

definition dtoi :: "string \<Rightarrow> int \<times> nat \<times> bool" where
  "dtoi s =
     (case dtoi_loop s 0 0 of (n, i, ok) \<Rightarrow>
        if ok then (if i = 0 then (0, 0, False) else (n, i, True)) else (n, i, False))"

fun xtoi_loop :: "string \<Rightarrow> int \<Rightarrow> nat \<Rightarrow> int \<times> nat \<times> bool" where
  "xtoi_loop [] n i = (n, i, True)"
| "xtoi_loop (c # s) n i =
     (if isDigit c \<or> isLowerHex c \<or> isUpperHex c then
        (let n' = (if isDigit c then n * 16 + (of_char c - of_char (CHR ''0''))
                   else if isLowerHex c then n * 16 + (of_char c - of_char (CHR ''a'')) + 10
                   else n * 16 + (of_char c - of_char (CHR ''A'')) + 10) in
         if big \<le> n' then (0, i, False) else xtoi_loop s n' (i + 1))
      else (n, i, True))"

definition xtoi :: "string \<Rightarrow> int \<times> nat \<times> bool" where
  "xtoi s =
     (case xtoi_loop s 0 0 of (n, i, ok) \<Rightarrow>
        if ok then (if i = 0 then (0, i, False) else (n, i, True)) else (n, i, False))"

text \<open>The loop of \<open>parseIPv4\<close>: \<open>k\<close> octets are still to be read, \<open>i\<close> is the index of
  the next one. \<open>None\<close> is the early \<open>return nil\<close>.\<close>

fun parseIPv4_loop :: "nat \<Rightarrow> nat \<Rightarrow> string \<Rightarrow> (byte list \<times> string) option" where
  "parseIPv4_loop 0 i s = Some ([], s)"
| "parseIPv4_loop (Suc k) i s =
     (if s = [] then None
      else if 0 < i \<and> hd s \<noteq> CHR ''.'' then None
      else (let s1 = (if 0 < i then tl s else s) in
            case dtoi s1 of (n, c, ok) \<Rightarrow>
              if ok \<and> n \<le> 0xFF then
                (case parseIPv4_loop k (Suc i) (drop c s1) of
                   None \<Rightarrow> None
                 | Some (p, r) \<Rightarrow> Some (word_of_int n # p, r))
              else None))"

definition parseIPv4 :: "string \<Rightarrow> IP" where
  "parseIPv4 s =
     (case parseIPv4_loop IPv4len 0 s of
        None \<Rightarrow> []
      | Some (p, r) \<Rightarrow> if r \<noteq> [] then [] else IPv4 (p ! 0) (p ! 1) (p ! 2) (p ! 3))"

text \<open>The loop of \<open>parseIPv6\<close>. The bytes written so far are \<open>acc\<close> (Go's index \<open>i\<close>
  is its length), \<open>ellipsis\<close> is the position of \<open>::\<close> (\<open>None\<close> for \<open>-1\<close>). The result is
  the state at the loop's exit, \<open>None\<close> the early \<open>return nil\<close>.\<close>

function parseIPv6_loop ::
  "byte list \<Rightarrow> nat option \<Rightarrow> string \<Rightarrow> (byte list \<times> nat option \<times> string) option" where
  "parseIPv6_loop acc ellipsis s =
     (if length acc < IPv6len then
        (case xtoi s of (n, c, ok) \<Rightarrow>
           if ok \<and> n \<le> 0xFFFF then
             (if c < length s \<and> s ! c = CHR ''.'' then
                (if ellipsis = None \<and> length acc \<noteq> IPv6len - IPv4len then None
                 else if IPv6len < length acc + IPv4len then None
                 else (let ip4 = parseIPv4 s in
                       if ip4 = [] then None
                       else Some (acc @ drop 12 ip4, ellipsis, [])))
              else
                (let acc' = acc @ [word_of_int (n div 256), word_of_int n];
                     s1 = drop c s
                 in if s1 = [] then Some (acc', ellipsis, s1)
                    else if hd s1 \<noteq> CHR '':'' \<or> length s1 = 1 then None
                    else (let s2 = tl s1 in
                          if hd s2 = CHR '':'' then
                            (if ellipsis \<noteq> None then None
                             else (let s3 = tl s2 in
                                   if s3 = [] then Some (acc', Some (length acc'), s3)
                                   else parseIPv6_loop acc' (Some (length acc')) s3))
                          else parseIPv6_loop acc' ellipsis s2)))
           else None)
      else Some (acc, ellipsis, s))"
  by pat_completeness auto
termination
  by (relation "measure (\<lambda>(acc, ellipsis, s). IPv6len - length acc)") auto

declare parseIPv6_loop.simps [simp del]

text \<open>After the loop the whole string must be used; a short result is spread around
  the ellipsis, and an ellipsis with nothing to stand for is refused.\<close>

definition parseIPv6 :: "string \<Rightarrow> IP" where
  "parseIPv6 s0 =
     (let lead = (2 \<le> length s0 \<and> s0 ! 0 = CHR '':'' \<and> s0 ! 1 = CHR '':'');
          s = (if lead then drop 2 s0 else s0)
      in if lead \<and> s = [] then replicate IPv6len 0
         else (case parseIPv6_loop [] (if lead then Some 0 else None) s of
                 None \<Rightarrow> []
               | Some (acc, ellipsis, r) \<Rightarrow>
                   if r \<noteq> [] then []
                   else if length acc < IPv6len then
                     (case ellipsis of
                        None \<Rightarrow> []
                      | Some e \<Rightarrow> take e acc @ replicate (IPv6len - length acc) 0 @ drop e acc)
                   else if ellipsis \<noteq> None then []
                   else acc))"

fun ParseIP_scan :: "string \<Rightarrow> string \<Rightarrow> IP" where
  "ParseIP_scan s [] = []"
| "ParseIP_scan s (c # cs) =
     (if c = CHR ''.'' then parseIPv4 s
      else if c = CHR '':'' then parseIPv6 s
      else ParseIP_scan s cs)"

definition ParseIP :: "string \<Rightarrow> IP" where
  "ParseIP s = ParseIP_scan s s"

fun IndexByteString :: "string \<Rightarrow> char \<Rightarrow> nat option" where
  "IndexByteString [] c = None"
| "IndexByteString (x # xs) c =
     (if x = c then Some 0 else map_option Suc (IndexByteString xs c))"

datatype ParseError = ParseError string string

text \<open>\<open>ParseCIDR\<close> returns the address, the network and an error; the model returns the
  error or the two values.\<close>

definition ParseCIDR :: "string \<Rightarrow> ParseError + IP \<times> IPNet" where
  "ParseCIDR s =
     (case IndexByteString s (CHR ''/'') of
        None \<Rightarrow> Inl (ParseError ''CIDR address'' s)
      | Some i \<Rightarrow>
          (let addr = take i s; mask = drop (i + 1) s;
               ip4 = parseIPv4 addr;
               iplen = (if ip4 = [] then IPv6len else IPv4len);
               ip = (if ip4 = [] then parseIPv6 addr else ip4)
           in case dtoi mask of (n, j, ok) \<Rightarrow>
                if ok \<and> ip \<noteq> [] \<and> j = length mask \<and> n \<le> int (8 * iplen)
                then (let m = CIDRMask (nat n) (8 * iplen) in
                      Inr (ip, \<lparr>IP = IP_Mask ip m, Mask = m\<rparr>))
                else Inl (ParseError ''CIDR address'' s)))"

section \<open>Go's \<open>math/big\<close>: the two conversions the allocator uses\<close>

text \<open>\<open>SetBytes\<close> reads the bytes as a big-endian unsigned integer. \<open>Bytes\<close> returns
  the big-endian bytes of the absolute value, without leading zero bytes (the empty
  slice for 0).\<close>

definition SetBytes :: "byte list \<Rightarrow> int" where
  "SetBytes buf = foldl (\<lambda>acc b. acc * 256 + uint b) 0 buf"

function abs_bytes :: "int \<Rightarrow> byte list" where
  "abs_bytes n = (if n \<le> 0 then [] else abs_bytes (n div 256) @ [word_of_int (n mod 256)])"
  by pat_completeness auto
termination
  by (relation "measure nat") auto

declare abs_bytes.simps [simp del]

definition Bytes :: "int \<Rightarrow> byte list" where
  "Bytes x = abs_bytes \<bar>x\<bar>"

section \<open>The cluster aggregate\<close>

text \<open>
  A Go call either panics or returns; a panic is the left summand. The two panics the
  cluster's code can raise are a nil pointer dereference and a slice expression out of
  range.
\<close>

datatype panic = NilPointerDereference | SliceBoundsOutOfRange

text \<open>
  The errors the package returns, each with the arguments of its format string:
  \<^item> \<open>CIDRParseError\<close>: the \<open>*net.ParseError\<close> of \<open>net.ParseCIDR\<close>;
  \<^item> \<open>NotEnoughIPAddresses s\<close>: \<open>not enough IP addresses to assign in the %q CIDR\<close>,
    with \<open>s\<close> the string of the CIDR;
  \<^item> \<open>VPNPeerNotFound name\<close>: \<open>vpn peer %q not found\<close>;
  \<^item> \<open>CouldNotEncodeCluster name\<close>: \<open>could not encode cluster %q\<close>;
  \<^item> \<open>ExternalError msg\<close>: an error of a collaborator (certificate and key generation,
    scheme registration, the encoder), passed on as it is.
\<close>

datatype error =
    CIDRParseError ParseError
  | NotEnoughIPAddresses string
  | VPNPeerNotFound string
  | CouldNotEncodeCluster string
  | ExternalError string

text \<open>
  Modelled from the spec: the types \<open>certificates.Certificate\<close>, \<open>CertificateAuthorities\<close>,
  \<open>KubeAPIServer\<close>, \<open>EtcdServer\<close>, \<open>VPNPeer\<close> and \<open>VPNPeerList\<close> are declared in files of the
  repository that are not among the sources. Their fields are the ones \<open>cluster.go\<close>
  reads and writes; a certificate is a certificate and a private key (section 3 of the
  spec), held by value.
\<close>

record Certificate =
  Certificate :: string
  PrivateKey :: string

record CertificateAuthorities =
  APIServerClient :: Certificate
  CertificateSigner :: Certificate
  Kubelet :: Certificate
  EtcdClient :: Certificate
  EtcdPeer :: Certificate

record KubeAPIServer =
  CA :: Certificate
  TLSCert :: string
  TLSPrivateKey :: string
  ServiceAccountPublicKey :: string
  ServiceAccountPrivateKey :: string
  ExtraSANs :: "string list"

record EtcdServer =
  CA :: Certificate
  TLSCert :: string
  TLSPrivateKey :: string
  ExtraSANs :: "string list"

record VPNPeer =
  Name :: string
  Address :: string
  PrivateKey :: string
  PublicKey :: string

text \<open>The struct \<open>Cluster\<close>. Its pointer fields are options: \<open>NewCluster\<close> starts from a
  value in which only the name and the CIDR are set.\<close>

record Cluster =
  Name :: string
  CertificateAuthorities :: "CertificateAuthorities option"
  EtcdServer :: "EtcdServer option"
  APIServer :: "KubeAPIServer option"
  StorageClientEndpoints :: "string list"
  StoragePeerEndpoints :: "string list"
  VPNCIDR :: "IPNet option"
  VPNPeers :: "VPNPeer list"

text \<open>\<open>type Map map[string]*Cluster\<close>. A \<open>range\<close> over a Go map visits every entry once,
  in an order the language leaves open: a map is given as its entries in the order in
  which the loop at hand visits them.\<close>

type_synonym Map = "(string \<times> Cluster) list"

subsection \<open>The versioned representation\<close>

text \<open>
  Modelled from the spec: the package \<open>apis/cluster/v1alpha1\<close> is not among the sources.
  The records below have the fields \<open>Export\<close> fills in, which section 6 of the spec
  lists; the two \<open>CA\<close> fields are pointers.
\<close>

record v1alpha1_Certificate =
  Certificate :: string
  PrivateKey :: string

record v1alpha1_CertificateAuthorities =
  APIServerClient :: v1alpha1_Certificate
  CertificateSigner :: v1alpha1_Certificate
  Kubelet :: v1alpha1_Certificate
  EtcdClient :: v1alpha1_Certificate
  EtcdPeer :: v1alpha1_Certificate

record v1alpha1_KeyPair =
  PublicKey :: string
  PrivateKey :: string

record v1alpha1_KubeAPIServer =
  CA :: "v1alpha1_Certificate option"
  TLSCert :: string
  TLSPrivateKey :: string
  ServiceAccount :: v1alpha1_KeyPair
  ExtraSANs :: "string list"

record v1alpha1_EtcdServer =
  CA :: "v1alpha1_Certificate option"
  TLSCert :: string
  TLSPrivateKey :: string
  ExtraSANs :: "string list"

record v1alpha1_VPNPeer =
  Name :: string
  Address :: string
  PrivateKey :: string
  PublicKey :: string

record v1alpha1_ClusterSpec =
  CertificateAuthorities :: v1alpha1_CertificateAuthorities
  APIServer :: v1alpha1_KubeAPIServer
  EtcdServer :: v1alpha1_EtcdServer
  VPNCIDR :: string

record v1alpha1_ClusterStatus =
  StorageClientEndpoints :: "string list"
  StoragePeerEndpoints :: "string list"
  VPNPeers :: "v1alpha1_VPNPeer list"

record ObjectMeta =
  Name :: string

record v1alpha1_Cluster =
  ObjectMeta :: ObjectMeta
  Spec :: v1alpha1_ClusterSpec
  Status :: v1alpha1_ClusterStatus

subsection \<open>The collaborators\<close>

text \<open>
  A WireGuard key as \<open>GenerateVPNPeer\<close> reads it: \<open>Key_String\<close> is \<open>privateKey.String()\<close>
  and \<open>PublicKey_String\<close> is \<open>privateKey.PublicKey().String()\<close>.
\<close>

record Key =
  Key_String :: string
  PublicKey_String :: string

text \<open>
  What the generators return during one call of \<open>NewCluster\<close>. Modelled from the spec:
  \<open>newCertificateAuthorities\<close>, \<open>newEtcdServer\<close> and \<open>newKubeAPIServer\<close> are not among the
  sources; each returns its value or an error, never a partial value (section 4.1).
  \<open>GeneratePrivateKey\<close> is the outcome of \<open>wgtypes.GeneratePrivateKey()\<close>.
\<close>

record generators =
  newCertificateAuthorities :: "error + CertificateAuthorities"
  newEtcdServer :: "string list \<Rightarrow> error + EtcdServer"
  newKubeAPIServer :: "string list \<Rightarrow> error + KubeAPIServer"
  GeneratePrivateKey :: "error + Key"

subsection \<open>Address allocation and peers\<close>

text \<open>
  \<open>requestVPNIP\<close>. The peer count goes through \<open>int64(len(cluster.VPNPeers) + 1)\<close>, which
  is exact for every slice Go can hold. \<open>Bytes()[2:]\<close> panics when the number has fewer
  than two bytes. The error carries the string of the CIDR, which is what \<open>%q\<close> prints
  of a \<open>*net.IPNet\<close>.
\<close>

definition requestVPNIP :: "Cluster \<Rightarrow> panic + string \<times> error option" where
  "requestVPNIP cluster =
     (case Cluster.VPNCIDR cluster of
        None \<Rightarrow> Inl NilPointerDereference
      | Some cidr \<Rightarrow>
          (let assignedIP = int (length (Cluster.VPNPeers cluster) + 1);
               vpnNetwork = SetBytes (IP_To16 (IP cidr));
               vpnAssignedIP = vpnNetwork + assignedIP
           in if length (Bytes vpnAssignedIP) < 2 then Inl SliceBoundsOutOfRange
              else (let vpnAssignedIPSlice =
                          (if length (Bytes vpnAssignedIP) = IPv6len then Bytes vpnAssignedIP
                           else drop 2 (Bytes vpnAssignedIP))
                    in if IPNet_Contains cidr vpnAssignedIPSlice
                       then Inr (IP_String vpnAssignedIPSlice, None)
                       else Inr ([], Some (NotEnoughIPAddresses (IPNet_String cidr))))))"

text \<open>\<open>GenerateVPNPeer\<close> mutates the cluster it is called on: the model returns the
  cluster after the call, with the error. Its first argument is what
  \<open>wgtypes.GeneratePrivateKey()\<close> returns in this call.\<close>

definition GenerateVPNPeer ::
  "error + Key \<Rightarrow> string \<Rightarrow> Cluster \<Rightarrow> panic + Cluster \<times> error option" where
  "GenerateVPNPeer generated peerName cluster =
     (case requestVPNIP cluster of
        Inl p \<Rightarrow> Inl p
      | Inr (controlPlaneIngressVPNIP, Some err) \<Rightarrow> Inr (cluster, Some err)
      | Inr (controlPlaneIngressVPNIP, None) \<Rightarrow>
          (case generated of
             Inl err \<Rightarrow> Inr (cluster, Some err)
           | Inr privateKey \<Rightarrow>
               (let ipAddress = ParseIP controlPlaneIngressVPNIP;
                    ipAddressNet =
                      (if length ipAddress = IPv6len
                       then \<lparr>IP = ipAddress, Mask = CIDRMask 128 128\<rparr>
                       else \<lparr>IP = ipAddress, Mask = CIDRMask 32 32\<rparr>)
                in Inr (cluster\<lparr>Cluster.VPNPeers := Cluster.VPNPeers cluster @
                          [\<lparr>VPNPeer.Name = peerName,
                            VPNPeer.Address = IPNet_String ipAddressNet,
                            VPNPeer.PrivateKey = Key_String privateKey,
                            VPNPeer.PublicKey = PublicKey_String privateKey\<rparr>]\<rparr>,
                        None))))"

text \<open>\<open>VPNPeer\<close>, the lookup by name: the loop over the peers, then the method. The
  method has a pointer receiver; the model returns the cluster after the call as
  well.\<close>

fun VPNPeer_range :: "VPNPeer list \<Rightarrow> string \<Rightarrow> VPNPeer option" where
  "VPNPeer_range [] name = None"
| "VPNPeer_range (peer # rest) name =
     (if VPNPeer.Name peer = name then Some peer else VPNPeer_range rest name)"

definition Cluster_VPNPeer :: "Cluster \<Rightarrow> string \<Rightarrow> Cluster \<times> VPNPeer option \<times> error option" where
  "Cluster_VPNPeer cluster name =
     (case VPNPeer_range (Cluster.VPNPeers cluster) name of
        Some peer \<Rightarrow> (cluster, Some peer, None)
      | None \<Rightarrow> (cluster, None, Some (VPNPeerNotFound name)))"

subsection \<open>Construction\<close>

definition generateCertificates ::
  "generators \<Rightarrow> string list \<Rightarrow> string list \<Rightarrow> Cluster \<Rightarrow> Cluster \<times> error option" where
  "generateCertificates g etcdServerExtraSANs apiServerExtraSANs cluster =
     (case newCertificateAuthorities g of
        Inl err \<Rightarrow> (cluster, Some err)
      | Inr certificateAuthorities \<Rightarrow>
          (let cluster1 = cluster\<lparr>Cluster.CertificateAuthorities := Some certificateAuthorities\<rparr> in
           case newEtcdServer g etcdServerExtraSANs of
             Inl err \<Rightarrow> (cluster1, Some err)
           | Inr etcdServer \<Rightarrow>
               (let cluster2 = cluster1\<lparr>Cluster.EtcdServer := Some etcdServer\<rparr> in
                case newKubeAPIServer g apiServerExtraSANs of
                  Inl err \<Rightarrow> (cluster2, Some err)
                | Inr kubeAPIServer \<Rightarrow>
                    (cluster2\<lparr>Cluster.APIServer := Some kubeAPIServer\<rparr>, None))))"

text \<open>\<open>NewCluster\<close> returns a pointer and an error: the pair of an optional cluster and
  an optional error.\<close>

definition NewCluster ::
  "generators \<Rightarrow> string \<Rightarrow> string \<Rightarrow> string list \<Rightarrow> string list \<Rightarrow>
     panic + Cluster option \<times> error option" where
  "NewCluster g clusterName vpnCIDR etcdServerExtraSANs apiServerExtraSANs =
     (case ParseCIDR vpnCIDR of
        Inl err \<Rightarrow> Inr (None, Some (CIDRParseError err))
      | Inr (ip, vpnCIDRNet) \<Rightarrow>
          (let res = \<lparr>Cluster.Name = clusterName,
                      Cluster.CertificateAuthorities = None,
                      Cluster.EtcdServer = None,
                      Cluster.APIServer = None,
                      Cluster.StorageClientEndpoints = [],
                      Cluster.StoragePeerEndpoints = [],
                      Cluster.VPNCIDR = Some vpnCIDRNet,
                      Cluster.VPNPeers = []\<rparr>
           in case generateCertificates g etcdServerExtraSANs apiServerExtraSANs res of
                (res1, Some err) \<Rightarrow> Inr (None, Some err)
              | (res1, None) \<Rightarrow>
                  (case GenerateVPNPeer (GeneratePrivateKey g) ''control-plane-ingress'' res1 of
                     Inl p \<Rightarrow> Inl p
                   | Inr (res2, Some err) \<Rightarrow> Inr (None, Some err)
                   | Inr (res2, None) \<Rightarrow> Inr (Some res2, None))))"

subsection \<open>Export and import\<close>

text \<open>
  Modelled from the spec: \<open>VPNPeerList.Export\<close>, \<open>newVPNPeersFromv1alpha1\<close>,
  \<open>newVPNCIDRFromv1alpha1\<close> and \<open>certificates.NewCertificateFromv1alpha1\<close> are not among the
  sources. By sections 4.3 and 6 of the spec the peer list is exported peer by peer
  with its four fields, the CIDR is exported as its string and read back from it, and
  a certificate is its certificate and its private key.
\<close>

definition VPNPeer_Export :: "VPNPeer \<Rightarrow> v1alpha1_VPNPeer" where
  "VPNPeer_Export peer =
     \<lparr>v1alpha1_VPNPeer.Name = VPNPeer.Name peer,
      v1alpha1_VPNPeer.Address = VPNPeer.Address peer,
      v1alpha1_VPNPeer.PrivateKey = VPNPeer.PrivateKey peer,
      v1alpha1_VPNPeer.PublicKey = VPNPeer.PublicKey peer\<rparr>"

definition VPNPeerList_Export :: "VPNPeer list \<Rightarrow> v1alpha1_VPNPeer list" where
  "VPNPeerList_Export peers = map VPNPeer_Export peers"

definition newVPNPeerFromv1alpha1 :: "v1alpha1_VPNPeer \<Rightarrow> VPNPeer" where
  "newVPNPeerFromv1alpha1 peer =
     \<lparr>VPNPeer.Name = v1alpha1_VPNPeer.Name peer,
      VPNPeer.Address = v1alpha1_VPNPeer.Address peer,
      VPNPeer.PrivateKey = v1alpha1_VPNPeer.PrivateKey peer,
      VPNPeer.PublicKey = v1alpha1_VPNPeer.PublicKey peer\<rparr>"

definition newVPNPeersFromv1alpha1 :: "v1alpha1_VPNPeer list \<Rightarrow> VPNPeer list" where
  "newVPNPeersFromv1alpha1 peers = map newVPNPeerFromv1alpha1 peers"

definition newVPNCIDRFromv1alpha1 :: "string \<Rightarrow> IPNet option" where
  "newVPNCIDRFromv1alpha1 vpnCIDR =
     (case ParseCIDR vpnCIDR of Inl err \<Rightarrow> None | Inr (ip, vpnCIDRNet) \<Rightarrow> Some vpnCIDRNet)"

definition NewCertificateFromv1alpha1 :: "v1alpha1_Certificate \<Rightarrow> Certificate" where
  "NewCertificateFromv1alpha1 certificate =
     \<lparr>Certificate.Certificate = v1alpha1_Certificate.Certificate certificate,
      Certificate.PrivateKey = v1alpha1_Certificate.PrivateKey certificate\<rparr>"

text \<open>The certificate literal that \<open>Export\<close> writes ten times.\<close>

definition Certificate_Export :: "Certificate \<Rightarrow> v1alpha1_Certificate" where
  "Certificate_Export c =
     \<lparr>v1alpha1_Certificate.Certificate = Certificate.Certificate c,
      v1alpha1_Certificate.PrivateKey = Certificate.PrivateKey c\<rparr>"

text \<open>\<open>(*IPNet).String\<close> on a nil pointer is \<open><nil>\<close>.\<close>

definition IPNet_ptr_String :: "IPNet option \<Rightarrow> string" where
  "IPNet_ptr_String n = (case n of None \<Rightarrow> ''<nil>'' | Some net \<Rightarrow> IPNet_String net)"

text \<open>\<open>Export\<close> dereferences the three pointers of the cluster.\<close>

definition Export :: "Cluster \<Rightarrow> panic + v1alpha1_Cluster" where
  "Export cluster =
     (case (Cluster.CertificateAuthorities cluster, Cluster.APIServer cluster,
            Cluster.EtcdServer cluster) of
        (Some cas, Some api, Some etcd) \<Rightarrow>
          Inr \<lparr>ObjectMeta = \<lparr>ObjectMeta.Name = Cluster.Name cluster\<rparr>,
               Spec =
                 \<lparr>v1alpha1_ClusterSpec.CertificateAuthorities =
                    \<lparr>v1alpha1_CertificateAuthorities.APIServerClient =
                       Certificate_Export (CertificateAuthorities.APIServerClient cas),
                     v1alpha1_CertificateAuthorities.CertificateSigner =
                       Certificate_Export (CertificateAuthorities.CertificateSigner cas),
                     v1alpha1_CertificateAuthorities.Kubelet =
                       Certificate_Export (CertificateAuthorities.Kubelet cas),
                     v1alpha1_CertificateAuthorities.EtcdClient =
                       Certificate_Export (CertificateAuthorities.EtcdClient cas),
                     v1alpha1_CertificateAuthorities.EtcdPeer =
                       Certificate_Export (CertificateAuthorities.EtcdPeer cas)\<rparr>,
                  v1alpha1_ClusterSpec.APIServer =
                    \<lparr>v1alpha1_KubeAPIServer.CA = Some (Certificate_Export (KubeAPIServer.CA api)),
                     v1alpha1_KubeAPIServer.TLSCert = KubeAPIServer.TLSCert api,
                     v1alpha1_KubeAPIServer.TLSPrivateKey = KubeAPIServer.TLSPrivateKey api,
                     v1alpha1_KubeAPIServer.ServiceAccount =
                       \<lparr>v1alpha1_KeyPair.PublicKey = KubeAPIServer.ServiceAccountPublicKey api,
                        v1alpha1_KeyPair.PrivateKey = KubeAPIServer.ServiceAccountPrivateKey api\<rparr>,
                     v1alpha1_KubeAPIServer.ExtraSANs = KubeAPIServer.ExtraSANs api\<rparr>,
                  v1alpha1_ClusterSpec.EtcdServer =
                    \<lparr>v1alpha1_EtcdServer.CA = Some (Certificate_Export (EtcdServer.CA etcd)),
                     v1alpha1_EtcdServer.TLSCert = EtcdServer.TLSCert etcd,
                     v1alpha1_EtcdServer.TLSPrivateKey = EtcdServer.TLSPrivateKey etcd,
                     v1alpha1_EtcdServer.ExtraSANs = EtcdServer.ExtraSANs etcd\<rparr>,
                  v1alpha1_ClusterSpec.VPNCIDR = IPNet_ptr_String (Cluster.VPNCIDR cluster)\<rparr>,
               Status =
                 \<lparr>v1alpha1_ClusterStatus.StorageClientEndpoints =
                    Cluster.StorageClientEndpoints cluster,
                  v1alpha1_ClusterStatus.StoragePeerEndpoints =
                    Cluster.StoragePeerEndpoints cluster,
                  v1alpha1_ClusterStatus.VPNPeers =
                    VPNPeerList_Export (Cluster.VPNPeers cluster)\<rparr>\<rparr>
      | _ \<Rightarrow> Inl NilPointerDereference)"

text \<open>\<open>NewClusterFromv1alpha1\<close> always returns a nil error. The two \<open>CA\<close> pointers of
  the versioned cluster are handed to \<open>NewCertificateFromv1alpha1\<close>, which reads
  them.\<close>

definition NewClusterFromv1alpha1 ::
  "v1alpha1_Cluster \<Rightarrow> panic + Cluster option \<times> error option" where
  "NewClusterFromv1alpha1 cluster =
     (let spec = Spec cluster; status = Status cluster;
          cas = v1alpha1_ClusterSpec.CertificateAuthorities spec;
          api = v1alpha1_ClusterSpec.APIServer spec;
          etcd = v1alpha1_ClusterSpec.EtcdServer spec
      in case (v1alpha1_KubeAPIServer.CA api, v1alpha1_EtcdServer.CA etcd) of
           (Some apiCA, Some etcdCA) \<Rightarrow>
             Inr (Some
               \<lparr>Cluster.Name = ObjectMeta.Name (ObjectMeta cluster),
                Cluster.CertificateAuthorities = Some
                  \<lparr>CertificateAuthorities.APIServerClient =
                     NewCertificateFromv1alpha1 (v1alpha1_CertificateAuthorities.APIServerClient cas),
                   CertificateAuthorities.CertificateSigner =
                     NewCertificateFromv1alpha1 (v1alpha1_CertificateAuthorities.CertificateSigner cas),
                   CertificateAuthorities.Kubelet =
                     NewCertificateFromv1alpha1 (v1alpha1_CertificateAuthorities.Kubelet cas),
                   CertificateAuthorities.EtcdClient =
                     NewCertificateFromv1alpha1 (v1alpha1_CertificateAuthorities.EtcdClient cas),
                   CertificateAuthorities.EtcdPeer =
                     NewCertificateFromv1alpha1 (v1alpha1_CertificateAuthorities.EtcdPeer cas)\<rparr>,
                Cluster.EtcdServer = Some
                  \<lparr>EtcdServer.CA = NewCertificateFromv1alpha1 etcdCA,
                   EtcdServer.TLSCert = v1alpha1_EtcdServer.TLSCert etcd,
                   EtcdServer.TLSPrivateKey = v1alpha1_EtcdServer.TLSPrivateKey etcd,
                   EtcdServer.ExtraSANs = v1alpha1_EtcdServer.ExtraSANs etcd\<rparr>,
                Cluster.APIServer = Some
                  \<lparr>KubeAPIServer.CA = NewCertificateFromv1alpha1 apiCA,
                   KubeAPIServer.TLSCert = v1alpha1_KubeAPIServer.TLSCert api,
                   KubeAPIServer.TLSPrivateKey = v1alpha1_KubeAPIServer.TLSPrivateKey api,
                   KubeAPIServer.ServiceAccountPublicKey =
                     v1alpha1_KeyPair.PublicKey (v1alpha1_KubeAPIServer.ServiceAccount api),
                   KubeAPIServer.ServiceAccountPrivateKey =
                     v1alpha1_KeyPair.PrivateKey (v1alpha1_KubeAPIServer.ServiceAccount api),
                   KubeAPIServer.ExtraSANs = v1alpha1_KubeAPIServer.ExtraSANs api\<rparr>,
                Cluster.StorageClientEndpoints =
                  v1alpha1_ClusterStatus.StorageClientEndpoints status,
                Cluster.StoragePeerEndpoints =
                  v1alpha1_ClusterStatus.StoragePeerEndpoints status,
                Cluster.VPNCIDR = newVPNCIDRFromv1alpha1 (v1alpha1_ClusterSpec.VPNCIDR spec),
                Cluster.VPNPeers =
                  newVPNPeersFromv1alpha1 (v1alpha1_ClusterStatus.VPNPeers status)\<rparr>,
               None)
         | _ \<Rightarrow> Inl NilPointerDereference)"

subsection \<open>Serialisation\<close>

text \<open>
  \<open>Specs\<close> builds a scheme, registers the versioned types, picks the YAML serializer
  and encodes the exported cluster. The collaborators are parameters: \<open>addToScheme\<close> is
  what \<open>clusterv1alpha1.AddToScheme\<close> returns on the fresh scheme (\<open>None\<close> for a nil
  error) and \<open>encode\<close> is \<open>runtime.Encode\<close> with the encoder the method builds.
\<close>

definition Cluster_Specs ::
  "error option \<Rightarrow> (v1alpha1_Cluster \<Rightarrow> error + string) \<Rightarrow> Cluster \<Rightarrow>
     panic + string \<times> error option" where
  "Cluster_Specs addToScheme encode cluster =
     (case addToScheme of
        Some err \<Rightarrow> Inr ([], Some err)
      | None \<Rightarrow>
          (case Export cluster of
             Inl p \<Rightarrow> Inl p
           | Inr clusterObject \<Rightarrow>
               (case encode clusterObject of
                  Inr encodedCluster \<Rightarrow> Inr (encodedCluster, None)
                | Inl err \<Rightarrow> Inr ([], Some (CouldNotEncodeCluster (Cluster.Name cluster))))))"

text \<open>The loop of \<open>Map.Specs\<close>, with \<open>res\<close> the string built so far, and the method.\<close>

fun Map_Specs_range ::
  "error option \<Rightarrow> (v1alpha1_Cluster \<Rightarrow> error + string) \<Rightarrow> Map \<Rightarrow> string \<Rightarrow> panic + string" where
  "Map_Specs_range addToScheme encode [] res = Inr res"
| "Map_Specs_range addToScheme encode ((name, cluster) # rest) res =
     (case Cluster_Specs addToScheme encode cluster of
        Inl p \<Rightarrow> Inl p
      | Inr (clusterSpec, Some err) \<Rightarrow> Map_Specs_range addToScheme encode rest res
      | Inr (clusterSpec, None) \<Rightarrow>
          Map_Specs_range addToScheme encode rest (res @ ''---'' @ [CHR 0x0A] @ clusterSpec))"

definition Map_Specs ::
  "error option \<Rightarrow> (v1alpha1_Cluster \<Rightarrow> error + string) \<Rightarrow> Map \<Rightarrow>
     panic + string \<times> error option" where
  "Map_Specs addToScheme encode clusterMap =
     (case Map_Specs_range addToScheme encode clusterMap [] of
        Inl p \<Rightarrow> Inl p
      | Inr res \<Rightarrow> Inr (res, None))"

section \<open>Sample data\<close>

text \<open>Concrete collaborators and clusters, for the closed instances further down.\<close>

definition demo_Certificate :: "string \<Rightarrow> Certificate" where
  "demo_Certificate n =
     \<lparr>Certificate.Certificate = ''cert-'' @ n, Certificate.PrivateKey = ''key-'' @ n\<rparr>"

definition demo_CertificateAuthorities :: CertificateAuthorities where
  "demo_CertificateAuthorities =
     \<lparr>CertificateAuthorities.APIServerClient = demo_Certificate ''apiserver-client'',
      CertificateAuthorities.CertificateSigner = demo_Certificate ''certificate-signer'',
      CertificateAuthorities.Kubelet = demo_Certificate ''kubelet'',
      CertificateAuthorities.EtcdClient = demo_Certificate ''etcd-client'',
      CertificateAuthorities.EtcdPeer = demo_Certificate ''etcd-peer''\<rparr>"

definition demo_EtcdServer :: "string list \<Rightarrow> EtcdServer" where
  "demo_EtcdServer sans =
     \<lparr>EtcdServer.CA = demo_Certificate ''etcd'',
      EtcdServer.TLSCert = ''etcd-tls-cert'',
      EtcdServer.TLSPrivateKey = ''etcd-tls-key'',
      EtcdServer.ExtraSANs = sans\<rparr>"

definition demo_KubeAPIServer :: "string list \<Rightarrow> KubeAPIServer" where
  "demo_KubeAPIServer sans =
     \<lparr>KubeAPIServer.CA = demo_Certificate ''apiserver'',
      KubeAPIServer.TLSCert = ''apiserver-tls-cert'',
      KubeAPIServer.TLSPrivateKey = ''apiserver-tls-key'',
      KubeAPIServer.ServiceAccountPublicKey = ''sa-pub'',
      KubeAPIServer.ServiceAccountPrivateKey = ''sa-key'',
      KubeAPIServer.ExtraSANs = sans\<rparr>"

definition demo_Key :: "string \<Rightarrow> Key" where
  "demo_Key n = \<lparr>Key_String = ''private-'' @ n, PublicKey_String = ''public-'' @ n\<rparr>"

definition demo_generators :: generators where
  "demo_generators =
     \<lparr>newCertificateAuthorities = Inr demo_CertificateAuthorities,
      newEtcdServer = (\<lambda>sans. Inr (demo_EtcdServer sans)),
      newKubeAPIServer = (\<lambda>sans. Inr (demo_KubeAPIServer sans)),
      GeneratePrivateKey = Inr (demo_Key ''0'')\<rparr>"

text \<open>The cluster \<open>NewCluster\<close> builds from the sample generators, given the parsed CIDR
  and the address of its first peer.\<close>

definition demo_Cluster :: "IPNet \<Rightarrow> string \<Rightarrow> Cluster" where
  "demo_Cluster net address =
     \<lparr>Cluster.Name = ''demo'',
      Cluster.CertificateAuthorities = Some demo_CertificateAuthorities,
      Cluster.EtcdServer = Some (demo_EtcdServer []),
      Cluster.APIServer = Some (demo_KubeAPIServer []),
      Cluster.StorageClientEndpoints = [],
      Cluster.StoragePeerEndpoints = [],
      Cluster.VPNCIDR = Some net,
      Cluster.VPNPeers =
        [\<lparr>VPNPeer.Name = ''control-plane-ingress'', VPNPeer.Address = address,
          VPNPeer.PrivateKey = ''private-0'', VPNPeer.PublicKey = ''public-0''\<rparr>]\<rparr>"

definition net_10_16 :: IPNet where
  "net_10_16 = \<lparr>IP = [10, 0, 0, 0], Mask = [255, 255, 0, 0]\<rparr>"

definition demo :: Cluster where
  "demo = demo_Cluster net_10_16 ''10.0.0.1/32''"

text \<open>An encoder that refuses the cluster named \<open>bad\<close>.\<close>

definition demo_encode :: "v1alpha1_Cluster \<Rightarrow> error + string" where
  "demo_encode clusterObject =
     (if ObjectMeta.Name (ObjectMeta clusterObject) = ''bad''
      then Inl (ExternalError ''unsupported'')
      else Inr (''name: '' @ ObjectMeta.Name (ObjectMeta clusterObject) @ [CHR 0x0A]))"

text \<open>The NAT64 prefix \<open>64:ff9b::/96\<close>, as \<open>net.ParseCIDR\<close> returns it.\<close>

definition net_nat64 :: IPNet where
  "net_nat64 =
     \<lparr>IP = [0, 0x64, 0xff, 0x9b, 0, 0, 0, 0, 0, 0, 0, 0, 0, 0, 0, 0],
      Mask = [0xff, 0xff, 0xff, 0xff, 0xff, 0xff, 0xff, 0xff, 0xff, 0xff, 0xff, 0xff, 0, 0, 0, 0]\<rparr>"

text \<open>The IPv4-mapped prefix \<open>::ffff:10.0.0.0/112\<close>, as \<open>net.ParseCIDR\<close> returns it.\<close>

definition net_mapped :: IPNet where
  "net_mapped =
     \<lparr>IP = [0, 0, 0, 0, 0, 0, 0, 0, 0, 0, 0xff, 0xff, 10, 0, 0, 0],
      Mask = [0xff, 0xff, 0xff, 0xff, 0xff, 0xff, 0xff, 0xff, 0xff, 0xff, 0xff, 0xff,
              0xff, 0xff, 0, 0]\<rparr>"

section \<open>What the operations read and write\<close>

text \<open>The address \<open>GenerateVPNPeer\<close> stores for the string \<open>requestVPNIP\<close> returned.\<close>

definition peerAddress :: "string \<Rightarrow> string" where
  "peerAddress s =
     IPNet_String
       (if length (ParseIP s) = IPv6len then \<lparr>IP = ParseIP s, Mask = CIDRMask 128 128\<rparr>
        else \<lparr>IP = ParseIP s, Mask = CIDRMask 32 32\<rparr>)"

text \<open>\<open>requestVPNIP\<close> reads the CIDR and the number of peers only: a cluster with
  nothing else set gives the same result.\<close>

definition bare_Cluster :: "IPNet option \<Rightarrow> nat \<Rightarrow> Cluster" where
  "bare_Cluster cidr n =
     \<lparr>Cluster.Name = [],
      Cluster.CertificateAuthorities = None,
      Cluster.EtcdServer = None,
      Cluster.APIServer = None,
      Cluster.StorageClientEndpoints = [],
      Cluster.StoragePeerEndpoints = [],
      Cluster.VPNCIDR = cidr,
      Cluster.VPNPeers =
        replicate n \<lparr>VPNPeer.Name = [], VPNPeer.Address = [],
                      VPNPeer.PrivateKey = [], VPNPeer.PublicKey = []\<rparr>\<rparr>"

text \<open>What one member adds to the result of \<open>Map.Specs\<close>: its document after the
  separator line, or nothing when its serialisation fails.\<close>

definition document ::
  "error option \<Rightarrow> (v1alpha1_Cluster \<Rightarrow> error + string) \<Rightarrow> Cluster \<Rightarrow> string" where
  "document addToScheme encode cluster =
     (case Cluster_Specs addToScheme encode cluster of
        Inr (clusterSpec, None) \<Rightarrow> ''---'' @ [CHR 0x0A] @ clusterSpec
      | _ \<Rightarrow> [])"

section \<open>Notions used in the proofs\<close>

text \<open>The networks \<open>ParseCIDR\<close> returns: the address and the mask have the same length,
  4 or 16 bytes.\<close>

definition valid_net :: "IPNet \<Rightarrow> bool" where
  "valid_net net =
     (length (IP net) = 4 \<and> length (Mask net) = 4 \<or>
      length (IP net) = 16 \<and> length (Mask net) = 16)"

text \<open>The number \<open>requestVPNIP\<close> computes for a cluster with \<open>n\<close> peers.\<close>

definition assigned :: "IPNet \<Rightarrow> nat \<Rightarrow> int" where
  "assigned net n = SetBytes (IP_To16 (IP net)) + int (n + 1)"

text \<open>The first number that is too long for the family of the network: \<open>2 ^ 48\<close> when
  the network number is an IPv4 address (in 4 or in 16 bytes), \<open>2 ^ 128\<close> otherwise.\<close>

definition limit :: "IPNet \<Rightarrow> int" where
  "limit net = (if IP_To4 (IP net) \<noteq> [] then 256 ^ 6 else 256 ^ 16)"

text \<open>What \<open>longest_run\<close> keeps in \<open>e0\<close> and \<open>e1\<close>: no run, or an even-aligned run of
  zero bytes.\<close>

definition run_ok :: "IP \<Rightarrow> int \<Rightarrow> int \<Rightarrow> bool" where
  "run_ok p e0 e1 =
     ((e0 = - 1 \<and> e1 = - 1) \<or>
      (\<exists>a b. e0 = int a \<and> e1 = int b \<and> a < b \<and> b \<le> 16 \<and> even a \<and> even b \<and>
         list_all (\<lambda>k. p ! k = 0) [a..<b]))"

text \<open>What \<open>parseIPv6\<close> returns when its loop stops at the end of the string with the
  bytes \<open>acc\<close> read and the ellipsis at \<open>ellipsis\<close>.\<close>

definition spread :: "byte list \<Rightarrow> nat option \<Rightarrow> IP" where
  "spread acc ellipsis =
     (if length acc < 16 then
        (case ellipsis of
           None \<Rightarrow> []
         | Some e \<Rightarrow> take e acc @ replicate (16 - length acc) 0 @ drop e acc)
      else if ellipsis \<noteq> None then [] else acc)"

text \<open>A sequence of calls of \<open>GenerateVPNPeer\<close> on one cluster, each with the outcome of
  its key generation and its name, all of them returning a nil error.\<close>

fun GenerateVPNPeers :: "((error + Key) \<times> string) list \<Rightarrow> Cluster \<Rightarrow> Cluster option" where
  "GenerateVPNPeers [] cluster = Some cluster"
| "GenerateVPNPeers ((generated, peerName) # rest) cluster =
     (case GenerateVPNPeer generated peerName cluster of
        Inr (cluster', None) \<Rightarrow> GenerateVPNPeers rest cluster'
      | _ \<Rightarrow> None)"

text \<open>The invariant of the peer list: the \<open>i\<close>-th peer has the address that
  \<open>requestVPNIP\<close> gave to a cluster with \<open>i\<close> peers.\<close>

definition allocated :: "Cluster \<Rightarrow> bool" where
  "allocated c \<longleftrightarrow>
     (\<exists>net. Cluster.VPNCIDR c = Some net \<and> valid_net net \<and>
        (\<forall>i<length (Cluster.VPNPeers c).
           \<exists>s. requestVPNIP (bare_Cluster (Some net) i) = Inr (s, None) \<and>
               VPNPeer.Address (Cluster.VPNPeers c ! i) = peerAddress s))"

text \<open>The network \<open>ParseCIDR\<close> builds from the address \<open>p\<close> and the prefix length
  \<open>n\<close>.\<close>

definition masked :: "byte list \<Rightarrow> nat \<Rightarrow> IPNet" where
  "masked p n =
     \<lparr>IP = map2 (AND) p (CIDRMask n (8 * length p)), Mask = CIDRMask n (8 * length p)\<rparr>"

text \<open>The network number and the mask of a network, as a network: what
  \<open>IPNet.String\<close> prints.\<close>

definition canonical :: "IPNet \<Rightarrow> IPNet" where
  "canonical net =
     \<lparr>IP = fst (networkNumberAndMask net), Mask = snd (networkNumberAndMask net)\<rparr>"

section \<open>First consequences of the definitions\<close>

lemma requestVPNIP_bare:
  "requestVPNIP c = requestVPNIP (bare_Cluster (Cluster.VPNCIDR c) (length (Cluster.VPNPeers c)))"
  by (cases "Cluster.VPNCIDR c") (simp_all add: requestVPNIP_def bare_Cluster_def)

lemma GenerateVPNPeer_ok:
  "requestVPNIP c = Inr (s, None) \<Longrightarrow>
   GenerateVPNPeer (Inr key) peerName c =
     Inr (c\<lparr>Cluster.VPNPeers := Cluster.VPNPeers c @
              [\<lparr>VPNPeer.Name = peerName, VPNPeer.Address = peerAddress s,
                VPNPeer.PrivateKey = Key_String key,
                VPNPeer.PublicKey = PublicKey_String key\<rparr>]\<rparr>, None)"
  by (simp add: GenerateVPNPeer_def peerAddress_def Let_def)

lemma GenerateVPNPeer_exhausted:
  "requestVPNIP c = Inr (s, Some err) \<Longrightarrow> GenerateVPNPeer k peerName c = Inr (c, Some err)"
  by (simp add: GenerateVPNPeer_def)

lemma GenerateVPNPeer_okD:
  "GenerateVPNPeer k peerName c = Inr (c', None) \<Longrightarrow>
   \<exists>s key. requestVPNIP c = Inr (s, None) \<and> k = Inr key \<and>
     c' = c\<lparr>Cluster.VPNPeers := Cluster.VPNPeers c @
              [\<lparr>VPNPeer.Name = peerName, VPNPeer.Address = peerAddress s,
                VPNPeer.PrivateKey = Key_String key,
                VPNPeer.PublicKey = PublicKey_String key\<rparr>]\<rparr>"
  by (auto simp: GenerateVPNPeer_def peerAddress_def Let_def
           split: sum.splits prod.splits option.splits)

lemma NewCluster_okD:
  "NewCluster g clusterName vpnCIDR e a = Inr (Some c, None) \<Longrightarrow>
   \<exists>ip net cas etcd api.
     ParseCIDR vpnCIDR = Inr (ip, net) \<and>
     newCertificateAuthorities g = Inr cas \<and> newEtcdServer g e = Inr etcd \<and>
     newKubeAPIServer g a = Inr api \<and>
     GenerateVPNPeer (GeneratePrivateKey g) ''control-plane-ingress''
       \<lparr>Cluster.Name = clusterName,
        Cluster.CertificateAuthorities = Some cas,
        Cluster.EtcdServer = Some etcd,
        Cluster.APIServer = Some api,
        Cluster.StorageClientEndpoints = [],
        Cluster.StoragePeerEndpoints = [],
        Cluster.VPNCIDR = Some net,
        Cluster.VPNPeers = []\<rparr> = Inr (c, None)"
  by (auto simp: NewCluster_def Let_def generateCertificates_def
           split: sum.splits prod.splits option.splits)

lemma NewCluster_okI:
  "ParseCIDR vpnCIDR = Inr (ip, net) \<Longrightarrow>
   newCertificateAuthorities g = Inr cas \<Longrightarrow> newEtcdServer g e = Inr etcd \<Longrightarrow>
   newKubeAPIServer g a = Inr api \<Longrightarrow>
   GenerateVPNPeer (GeneratePrivateKey g) ''control-plane-ingress''
       \<lparr>Cluster.Name = clusterName,
        Cluster.CertificateAuthorities = Some cas,
        Cluster.EtcdServer = Some etcd,
        Cluster.APIServer = Some api,
        Cluster.StorageClientEndpoints = [],
        Cluster.StoragePeerEndpoints = [],
        Cluster.VPNCIDR = Some net,
        Cluster.VPNPeers = []\<rparr> = Inr (c, None) \<Longrightarrow>
   NewCluster g clusterName vpnCIDR e a = Inr (Some c, None)"
  by (simp add: NewCluster_def Let_def generateCertificates_def)

lemma VPNPeer_range_find:
  "VPNPeer_range peers name = find (\<lambda>peer. VPNPeer.Name peer = name) peers"
  by (induction peers) auto

lemma Map_Specs_range_concat:
  "list_all (\<lambda>(name, cluster). \<not> isl (Cluster_Specs addToScheme encode cluster)) clusterMap \<Longrightarrow>
   Map_Specs_range addToScheme encode clusterMap res =
     Inr (res @ concat (map (\<lambda>(name, cluster). document addToScheme encode cluster) clusterMap))"
proof (induction clusterMap arbitrary: res)
  case Nil
  then show ?case by simp
next
  case (Cons entry rest)
  obtain name cluster where entry: "entry = (name, cluster)" by (cases entry)
  from Cons.prems entry obtain spec r where
    specs: "Cluster_Specs addToScheme encode cluster = Inr (spec, r)"
    by (cases "Cluster_Specs addToScheme encode cluster") auto
  from Cons.prems
  have rest: "list_all (\<lambda>(name, cluster). \<not> isl (Cluster_Specs addToScheme encode cluster)) rest"
    by simp
  show ?case
    using Cons.IH [OF rest] specs entry
    by (cases r) (simp_all add: document_def)
qed

lemma Cluster_Specs_panics:
  "isl (Cluster_Specs addToScheme encode c) \<longleftrightarrow>
     addToScheme = None \<and>
     (Cluster.CertificateAuthorities c = None \<or> Cluster.APIServer c = None \<or>
      Cluster.EtcdServer c = None)"
  by (auto simp: Cluster_Specs_def Export_def split: option.splits sum.splits)

lemma Cluster_Specs_panic:
  "Cluster_Specs addToScheme encode c = Inl p \<Longrightarrow> p = NilPointerDereference"
  by (auto simp: Cluster_Specs_def Export_def split: option.splits sum.splits)

lemma Map_Specs_range_panic:
  "\<not> list_all (\<lambda>(name, cluster). \<not> isl (Cluster_Specs addToScheme encode cluster)) clusterMap \<Longrightarrow>
   Map_Specs_range addToScheme encode clusterMap res = Inl NilPointerDereference"
proof (induction clusterMap arbitrary: res)
  case Nil
  then show ?case by simp
next
  case (Cons entry rest)
  obtain name cluster where entry: "entry = (name, cluster)" by (cases entry)
  show ?case
  proof (cases "Cluster_Specs addToScheme encode cluster")
    case (Inl p)
    with Cluster_Specs_panic [OF Inl] entry show ?thesis by simp
  next
    case (Inr r)
    obtain spec e where r: "r = (spec, e)" by (cases r)
    from Cons.prems entry Inr
    have "\<not> list_all (\<lambda>(name, cluster). \<not> isl (Cluster_Specs addToScheme encode cluster)) rest"
      by simp
    from Cons.IH [OF this] Inr r entry show ?thesis by (cases e) simp_all
  qed
qed

subsection \<open>The numbers of the two scenarios\<close>

lemma ParseCIDR_10_16:
  "ParseCIDR ''10.0.0.0/16'' = Inr (IPv4 10 0 0 0, \<lparr>IP = [10, 0, 0, 0], Mask = [255, 255, 0, 0]\<rparr>)"
  by code_simp

lemma ParseCIDR_10_31:
  "ParseCIDR ''10.0.0.0/31'' = Inr (IPv4 10 0 0 0, \<lparr>IP = [10, 0, 0, 0], Mask = [255, 255, 255, 254]\<rparr>)"
  by code_simp

lemma ParseCIDR_malformed:
  "ParseCIDR ''10.0.0.0/33'' = Inl (ParseError ''CIDR address'' ''10.0.0.0/33'')"
  by code_simp

lemma requestVPNIP_10_16_first:
  "requestVPNIP (bare_Cluster (Some \<lparr>IP = [10, 0, 0, 0], Mask = [255, 255, 0, 0]\<rparr>) 0) =
     Inr (''10.0.0.1'', None)"
  by code_simp

lemma requestVPNIP_10_16_second:
  "requestVPNIP (bare_Cluster (Some \<lparr>IP = [10, 0, 0, 0], Mask = [255, 255, 0, 0]\<rparr>) (Suc 0)) =
     Inr (''10.0.0.2'', None)"
  by code_simp

lemma requestVPNIP_10_31_first:
  "requestVPNIP (bare_Cluster (Some \<lparr>IP = [10, 0, 0, 0], Mask = [255, 255, 255, 254]\<rparr>) 0) =
     Inr (''10.0.0.1'', None)"
  by code_simp

lemma requestVPNIP_10_31_second:
  "requestVPNIP (bare_Cluster (Some \<lparr>IP = [10, 0, 0, 0], Mask = [255, 255, 255, 254]\<rparr>) (Suc 0)) =
     Inr ([], Some (NotEnoughIPAddresses ''10.0.0.0/31''))"
  by code_simp

lemma peerAddress_10_0_0_1: "peerAddress ''10.0.0.1'' = ''10.0.0.1/32''"
  by code_simp

lemma peerAddress_10_0_0_2: "peerAddress ''10.0.0.2'' = ''10.0.0.2/32''"
  by code_simp

lemma NewCluster_demo:
  "NewCluster demo_generators ''demo'' ''10.0.0.0/16'' [] [] = Inr (Some demo, None)"
  by code_simp

lemma GenerateVPNPeer_demo:
  "GenerateVPNPeer (Inr (demo_Key ''1'')) ''worker-1'' demo =
     Inr (demo\<lparr>Cluster.VPNPeers := Cluster.VPNPeers demo @
            [\<lparr>VPNPeer.Name = ''worker-1'', VPNPeer.Address = ''10.0.0.2/32'',
              VPNPeer.PrivateKey = ''private-1'', VPNPeer.PublicKey = ''public-1''\<rparr>]\<rparr>, None)"
  by code_simp

lemma Cluster_Specs_bad:
  "Cluster_Specs None demo_encode (demo\<lparr>Cluster.Name := ''bad''\<rparr>) =
     Inr ([], Some (CouldNotEncodeCluster ''bad''))"
  by code_simp

section \<open>Digits\<close>

lemma less_10_cases:
  "k < (10::nat) \<Longrightarrow> k = 0 \<or> k = 1 \<or> k = 2 \<or> k = 3 \<or> k = 4 \<or> k = 5 \<or> k = 6 \<or> k = 7 \<or> k = 8 \<or> k = 9"
  by arith

lemma less_16_cases:
  "k < (16::nat) \<Longrightarrow> k = 0 \<or> k = 1 \<or> k = 2 \<or> k = 3 \<or> k = 4 \<or> k = 5 \<or> k = 6 \<or> k = 7 \<or> k = 8 \<or> k = 9
     \<or> k = 10 \<or> k = 11 \<or> k = 12 \<or> k = 13 \<or> k = 14 \<or> k = 15"
  by arith

lemma decimal_digit:
  assumes "k < (10::nat)"
  shows "isDigit (hexDigit ! k) \<and> of_char (hexDigit ! k) - of_char (CHR ''0'') = int k"
  using less_10_cases [OF assms]
  by (elim disjE) (simp_all add: isDigit_def hexDigit_def)

lemma hex_digit_not_sep:
  assumes "k < (16::nat)"
  shows "hexDigit ! k \<noteq> CHR '':'' \<and> hexDigit ! k \<noteq> CHR ''.'' \<and> hexDigit ! k \<noteq> CHR ''/''"
  using less_16_cases [OF assms]
  by (elim disjE) (simp_all add: hexDigit_def)

lemma sep_not_digit:
  "\<not> isDigit (CHR ''.'')" "\<not> isDigit (CHR '':'')" "\<not> isDigit (CHR ''/'')"
  "\<not> isLowerHex (CHR ''.'')" "\<not> isLowerHex (CHR '':'')" "\<not> isLowerHex (CHR ''/'')"
  "\<not> isUpperHex (CHR ''.'')" "\<not> isUpperHex (CHR '':'')" "\<not> isUpperHex (CHR ''/'')"
  by (simp_all add: isDigit_def isLowerHex_def isUpperHex_def)

section \<open>itoa and dtoi\<close>

lemma itoa_nonempty: "itoa n \<noteq> []"
  by (subst itoa.simps) simp

lemma dtoi_loop_step:
  assumes "k < (10::nat)" and "m * 10 + int k < big"
  shows "dtoi_loop (hexDigit ! k # s) m i = dtoi_loop s (m * 10 + int k) (Suc i)"
  using less_10_cases [OF assms(1)] assms(2)
  by (elim disjE) (simp_all add: isDigit_def hexDigit_def Let_def add.commute)

lemma dtoi_loop_itoa:
  "0 \<le> n \<Longrightarrow> n < big \<Longrightarrow> dtoi_loop (itoa n @ rest) 0 0 = dtoi_loop rest n (length (itoa n))"
proof (induction n arbitrary: rest rule: itoa.induct)
  case (1 n)
  show ?case
  proof (cases "n < 10")
    case True
    with "1.prems" have k: "nat n < 10" and n: "0 * 10 + int (nat n) < big" "int (nat n) = n"
      by auto
    from dtoi_loop_step [OF k n(1), of rest 0] n(2) True show ?thesis
      by (subst (1 2) itoa.simps) simp
  next
    case False
    with "1.prems" have k: "nat (n mod 10) < 10"
      and d: "0 \<le> n div 10" "n div 10 < big"
      and m: "n div 10 * 10 + int (nat (n mod 10)) = n"
      by (auto simp: big_def)
    from m "1.prems" have b: "n div 10 * 10 + int (nat (n mod 10)) < big" by simp
    from "1.IH" [OF False d, of "hexDigit ! nat (n mod 10) # rest"]
      dtoi_loop_step [OF k b, of rest "length (itoa (n div 10))"] m False
    show ?thesis
      by (subst (1 2) itoa.simps) simp
  qed
qed

lemma dtoi_itoa:
  assumes "0 \<le> n" and "n < big" and "rest = [] \<or> \<not> isDigit (hd rest)"
  shows "dtoi (itoa n @ rest) = (n, length (itoa n), True)"
proof -
  have "dtoi_loop rest n (length (itoa n)) = (n, length (itoa n), True)"
    using assms(3) by (cases rest) auto
  with dtoi_loop_itoa [OF assms(1,2), of rest] itoa_nonempty [of n] show ?thesis
    by (simp add: dtoi_def)
qed

lemma itoa_digits: "0 \<le> n \<Longrightarrow> list_all isDigit (itoa n)"
proof (induction n rule: itoa.induct)
  case (1 n)
  show ?case
  proof (cases "n < 10")
    case True
    with "1.prems" have "nat n < 10" by auto
    from decimal_digit [OF this] True show ?thesis
      by (subst itoa.simps) simp
  next
    case False
    with "1.prems" have k: "nat (n mod 10) < 10" and d: "0 \<le> n div 10" by auto
    from "1.IH" [OF False d] decimal_digit [OF k] False show ?thesis
      by (subst itoa.simps) simp
  qed
qed

section \<open>appendHex and xtoi\<close>

lemma appendHex_nonempty: "appendHex n \<noteq> []"
  by (subst appendHex.simps) simp

lemma xtoi_loop_step:
  assumes "k < (16::nat)" and "m * 16 + int k < big"
  shows "xtoi_loop (hexDigit ! k # s) m i = xtoi_loop s (m * 16 + int k) (Suc i)"
  using less_16_cases [OF assms(1)] assms(2)
  by (elim disjE) (simp_all add: isDigit_def isLowerHex_def hexDigit_def Let_def add.commute)

lemma xtoi_loop_appendHex:
  "0 \<le> n \<Longrightarrow> n < big \<Longrightarrow>
   xtoi_loop (appendHex n @ rest) 0 0 = xtoi_loop rest n (length (appendHex n))"
proof (induction n arbitrary: rest rule: appendHex.induct)
  case (1 n)
  show ?case
  proof (cases "n < 16")
    case True
    with "1.prems" have k: "nat n < 16" and n: "0 * 16 + int (nat n) < big" "int (nat n) = n"
      by auto
    from xtoi_loop_step [OF k n(1), of rest 0] n(2) True show ?thesis
      by (subst (1 2) appendHex.simps) simp
  next
    case False
    with "1.prems" have k: "nat (n mod 16) < 16"
      and d: "0 \<le> n div 16" "n div 16 < big"
      and m: "n div 16 * 16 + int (nat (n mod 16)) = n"
      by (auto simp: big_def)
    from m "1.prems" have b: "n div 16 * 16 + int (nat (n mod 16)) < big" by simp
    from "1.IH" [OF False d, of "hexDigit ! nat (n mod 16) # rest"]
      xtoi_loop_step [OF k b, of rest "length (appendHex (n div 16))"] m False
    show ?thesis
      by (subst (1 2) appendHex.simps) simp
  qed
qed

lemma xtoi_appendHex:
  assumes "0 \<le> n" and "n < big"
    and "rest = [] \<or> \<not> (isDigit (hd rest) \<or> isLowerHex (hd rest) \<or> isUpperHex (hd rest))"
  shows "xtoi (appendHex n @ rest) = (n, length (appendHex n), True)"
proof -
  have "xtoi_loop rest n (length (appendHex n)) = (n, length (appendHex n), True)"
    using assms(3) by (cases rest) auto
  with xtoi_loop_appendHex [OF assms(1,2), of rest] appendHex_nonempty [of n] show ?thesis
    by (simp add: xtoi_def)
qed

lemma appendHex_chars:
  "0 \<le> n \<Longrightarrow> list_all (\<lambda>c. c \<noteq> CHR '':'' \<and> c \<noteq> CHR ''.'' \<and> c \<noteq> CHR ''/'') (appendHex n)"
proof (induction n rule: appendHex.induct)
  case (1 n)
  show ?case
  proof (cases "n < 16")
    case True
    with "1.prems" have "nat n < 16" by auto
    from hex_digit_not_sep [OF this] True show ?thesis
      by (subst appendHex.simps) simp
  next
    case False
    with "1.prems" have k: "nat (n mod 16) < 16" and d: "0 \<le> n div 16" by auto
    from "1.IH" [OF False d] hex_digit_not_sep [OF k] False show ?thesis
      by (subst appendHex.simps) simp
  qed
qed

section \<open>IPv4 text\<close>

lemma isDigit_not_sep: "isDigit c \<Longrightarrow> c \<noteq> CHR ''.'' \<and> c \<noteq> CHR '':'' \<and> c \<noteq> CHR ''/''"
  using sep_not_digit by auto

lemma uint_byte_bounds: "0 \<le> uint (b :: byte) \<and> uint b \<le> 0xFF \<and> uint b < big"
proof -
  have "uint b < 2 ^ 8" using uint_lt2p [of b] by simp
  then show ?thesis by (simp add: big_def)
qed

lemma parseIPv4_loop_first:
  assumes "rest = [] \<or> \<not> isDigit (hd rest)"
  shows "parseIPv4_loop (Suc k) 0 (itoa (uint (b :: byte)) @ rest) =
           (case parseIPv4_loop k (Suc 0) rest of
              None \<Rightarrow> None
            | Some (p, r) \<Rightarrow> Some (b # p, r))"
  using dtoi_itoa [of "uint b" rest] uint_byte_bounds [of b] assms itoa_nonempty [of "uint b"]
  by (simp add: Let_def split: option.splits prod.splits)

lemma parseIPv4_loop_next:
  assumes "rest = [] \<or> \<not> isDigit (hd rest)" and "0 < i"
  shows "parseIPv4_loop (Suc k) i (CHR ''.'' # itoa (uint (b :: byte)) @ rest) =
           (case parseIPv4_loop k (Suc i) rest of
              None \<Rightarrow> None
            | Some (p, r) \<Rightarrow> Some (b # p, r))"
  using dtoi_itoa [of "uint b" rest] uint_byte_bounds [of b] assms
  by (simp add: Let_def split: option.splits prod.splits)

lemma parseIPv4_loop_last:
  assumes "0 < i"
  shows "parseIPv4_loop (Suc 0) i (CHR ''.'' # itoa (uint (b :: byte))) = Some ([b], [])"
  using parseIPv4_loop_next [of "[]" i 0 b] assms by simp

lemma parseIPv4_ipv4_String:
  "parseIPv4 (ipv4_String [a, b, c, d]) = IPv4 a b c d"
proof -
  have 4: "IPv4len = Suc (Suc (Suc (Suc 0)))" by (simp add: IPv4len_def)
  have "parseIPv4_loop IPv4len 0 (ipv4_String [a, b, c, d]) = Some ([a, b, c, d], [])"
    unfolding 4 ipv4_String_def
    by (simp add: parseIPv4_loop_first parseIPv4_loop_next parseIPv4_loop_last sep_not_digit
             del: parseIPv4_loop.simps(2))
  then show ?thesis by (simp add: parseIPv4_def)
qed

lemma ParseIP_scan_dot:
  "list_all (\<lambda>c. c \<noteq> CHR ''.'' \<and> c \<noteq> CHR '':'') pre \<Longrightarrow>
   ParseIP_scan s (pre @ CHR ''.'' # post) = parseIPv4 s"
  by (induction pre) auto

lemma ParseIP_scan_colon:
  "list_all (\<lambda>c. c \<noteq> CHR ''.'' \<and> c \<noteq> CHR '':'') pre \<Longrightarrow>
   ParseIP_scan s (pre @ CHR '':'' # post) = parseIPv6 s"
  by (induction pre) auto

lemma itoa_no_sep: "0 \<le> n \<Longrightarrow> list_all (\<lambda>c. c \<noteq> CHR ''.'' \<and> c \<noteq> CHR '':'') (itoa n)"
  using itoa_digits [of n] isDigit_not_sep by (auto simp: list_all_iff)

lemma ParseIP_ipv4_String:
  "ParseIP (ipv4_String [a, b, c, d]) = IPv4 a b c d"
proof -
  have "ParseIP (ipv4_String [a, b, c, d]) = parseIPv4 (ipv4_String [a, b, c, d])"
    unfolding ParseIP_def
    by (subst (2) ipv4_String_def) (simp add: ParseIP_scan_dot itoa_no_sep uint_byte_bounds)
  then show ?thesis by (simp add: parseIPv4_ipv4_String)
qed

lemma length_4_eq:
  "length (p :: 'a list) = 4 \<Longrightarrow> p = [p ! 0, p ! 1, p ! 2, p ! 3]"
  by (auto simp: length_Suc_conv numeral_eq_Suc)

lemma IP_To4_IPv4: "IP_To4 (IPv4 a b c d) = [a, b, c, d]"
  by (simp add: IP_To4_def IPv4_def v4InV6Prefix_def IPv4len_def IPv6len_def)

lemma length_IPv4: "length (IPv4 a b c d) = 16"
  by (simp add: IPv4_def v4InV6Prefix_def)

lemma IP_String_4: "length p = 4 \<Longrightarrow> IP_String p = ipv4_String p"
  by (simp add: IP_String_def IP_To4_def IPv4len_def)

lemma all_ones_32: "simpleMaskLength (drop 12 (CIDRMask 128 128)) = Some 32"
  by code_simp

lemma all_ones_128: "simpleMaskLength (CIDRMask 128 128) = Some 128"
  by code_simp

lemma length_CIDRMask_128: "length (CIDRMask 128 128) = 16"
  by code_simp

lemma drop_all_ones: "drop 12 (CIDRMask 128 128) = [0xff, 0xff, 0xff, 0xff]"
  by code_simp

lemma itoa_32: "itoa 32 = ''32''"
  by code_simp

lemma itoa_128: "itoa 128 = ''128''"
  by code_simp

lemma peerAddress_ipv4:
  assumes "length p = 4"
  shows "peerAddress (ipv4_String p) = ipv4_String p @ ''/32''"
proof -
  obtain a b c d where p: "p = [a, b, c, d]"
    using length_4_eq [OF assms] by blast
  have "networkNumberAndMask \<lparr>IP = IPv4 a b c d, Mask = CIDRMask 128 128\<rparr> =
          ([a, b, c, d], drop 12 (CIDRMask 128 128))"
    by (simp add: networkNumberAndMask_def IP_To4_IPv4 length_CIDRMask_128 IPv4len_def IPv6len_def)
  then have "IPNet_String \<lparr>IP = IPv4 a b c d, Mask = CIDRMask 128 128\<rparr> =
          ipv4_String [a, b, c, d] @ ''/32''"
    by (simp add: IPNet_String_def all_ones_32 drop_all_ones IP_String_4 itoa_32)
  then show ?thesis
    by (simp add: peerAddress_def p ParseIP_ipv4_String length_IPv4 IPv6len_def)
qed

lemma ipv4_String_inj:
  assumes "length p = 4" and "length q = 4" and "ipv4_String p = ipv4_String q"
  shows "p = q"
proof -
  obtain a b c d where p: "p = [a, b, c, d]" using length_4_eq [OF assms(1)] by blast
  obtain a' b' c' d' where q: "q = [a', b', c', d']" using length_4_eq [OF assms(2)] by blast
  from assms(3) have "ParseIP (ipv4_String p) = ParseIP (ipv4_String q)" by simp
  then show ?thesis
    by (simp add: p q ParseIP_ipv4_String IPv4_def)
qed

section \<open>Big-endian bytes\<close>

lemma SetBytes_Nil: "SetBytes [] = 0"
  by (simp add: SetBytes_def)

lemma SetBytes_snoc: "SetBytes (xs @ [b]) = SetBytes xs * 256 + uint b"
  by (simp add: SetBytes_def)

lemma SetBytes_append:
  "SetBytes (xs @ ys) = SetBytes xs * 256 ^ length ys + SetBytes ys"
proof (induction ys rule: rev_induct)
  case Nil
  then show ?case by (simp add: SetBytes_Nil)
next
  case (snoc y ys)
  have "SetBytes (xs @ ys @ [y]) = SetBytes ((xs @ ys) @ [y])" by simp
  also have "\<dots> = SetBytes (xs @ ys) * 256 + uint y" by (rule SetBytes_snoc)
  finally show ?case
    by (simp add: snoc.IH SetBytes_snoc algebra_simps)
qed

lemma SetBytes_bounds: "0 \<le> SetBytes xs \<and> SetBytes xs < 256 ^ length xs"
proof (induction xs rule: rev_induct)
  case Nil
  then show ?case by (simp add: SetBytes_Nil)
next
  case (snoc x xs)
  have "0 \<le> uint x" "uint x < 256" using uint_byte_bounds [of x] by auto
  with snoc show ?case
    by (simp add: SetBytes_snoc) 
qed

lemma word_of_int_mod_256: "uint (word_of_int (n mod 256) :: byte) = n mod 256"
  by (simp add: uint_word_of_int)

lemma SetBytes_abs_bytes: "0 \<le> n \<Longrightarrow> SetBytes (abs_bytes n) = n"
proof (induction n rule: abs_bytes.induct)
  case (1 n)
  show ?case
  proof (cases "n \<le> 0")
    case True
    with "1.prems" show ?thesis
      by (subst abs_bytes.simps) (simp add: SetBytes_Nil)
  next
    case False
    then have "0 \<le> n div 256" by simp
    from "1.IH" [OF False this] False show ?thesis
      by (subst abs_bytes.simps) (simp add: SetBytes_snoc word_of_int_mod_256)
  qed
qed

lemma SetBytes_Bytes: "0 \<le> n \<Longrightarrow> SetBytes (Bytes n) = n"
  by (simp add: Bytes_def SetBytes_abs_bytes)

lemma length_abs_bytes_le: "0 \<le> n \<Longrightarrow> n < 256 ^ k \<Longrightarrow> length (abs_bytes n) \<le> k"
proof (induction n arbitrary: k rule: abs_bytes.induct)
  case (1 n)
  show ?case
  proof (cases "n \<le> 0")
    case True
    then show ?thesis by (subst abs_bytes.simps) simp
  next
    case False
    with "1.prems" obtain k' where k: "k = Suc k'"
      by (cases k) auto
    define P :: int where "P = 256 ^ k'"
    from "1.prems" k have "n < 256 * P" by (simp add: P_def)
    then have "n div 256 < P" by arith
    then have "n div 256 < 256 ^ k'" by (simp add: P_def)
    moreover from False have "0 \<le> n div 256" by simp
    ultimately have "length (abs_bytes (n div 256)) \<le> k'"
      using "1.IH" [OF False] by blast
    with False k show ?thesis
      by (subst abs_bytes.simps) simp
  qed
qed

lemma length_abs_bytes_ge: "256 ^ k \<le> n \<Longrightarrow> k < length (abs_bytes n)"
proof (induction n arbitrary: k rule: abs_bytes.induct)
  case (1 n)
  from "1.prems" have pos: "\<not> n \<le> 0"
    by (smt (verit) zero_less_power)
  show ?case
  proof (cases k)
    case 0
    with pos show ?thesis by (subst abs_bytes.simps) simp
  next
    case (Suc k')
    define P :: int where "P = 256 ^ k'"
    from Suc "1.prems" have "256 * P \<le> n" by (simp add: P_def)
    then have "P \<le> n div 256" by arith
    then have "256 ^ k' \<le> n div 256" by (simp add: P_def)
    from "1.IH" [OF pos this] pos Suc show ?thesis
      by (subst abs_bytes.simps) simp
  qed
qed

lemma length_Bytes_le: "0 \<le> n \<Longrightarrow> n < 256 ^ k \<Longrightarrow> length (Bytes n) \<le> k"
  by (simp add: Bytes_def length_abs_bytes_le)

lemma length_Bytes_ge: "256 ^ k \<le> n \<Longrightarrow> k < length (Bytes n)"
proof -
  assume a: "256 ^ k \<le> n"
  have "(0::int) < 256 ^ k" by simp
  with a have "0 \<le> n" by linarith
  with a show ?thesis by (simp add: Bytes_def length_abs_bytes_ge)
qed

lemma hd_abs_bytes: "0 < n \<Longrightarrow> hd (abs_bytes n) \<noteq> 0"
proof (induction n rule: abs_bytes.induct)
  case (1 n)
  then have pos: "\<not> n \<le> 0" by simp
  show ?case
  proof (cases "0 < n div 256")
    case True
    from "1.IH" [OF pos True] have "hd (abs_bytes (n div 256)) \<noteq> 0" .
    moreover from True have "abs_bytes (n div 256) \<noteq> []"
      by (subst abs_bytes.simps) simp
    ultimately show ?thesis using pos
      by (subst abs_bytes.simps) simp
  next
    case False
    with pos have small: "n div 256 = 0" "n mod 256 = n" "n < 256"
      by (auto simp: div_pos_pos_trivial zdiv_eq_0_iff)
    then have "abs_bytes (n div 256) = []" by (subst abs_bytes.simps) simp
    moreover have "(word_of_int n :: byte) \<noteq> 0"
    proof
      assume "(word_of_int n :: byte) = 0"
      then have "uint (word_of_int n :: byte) = 0" by simp
      moreover have "uint (word_of_int n :: byte) = n"
        using small pos word_of_int_mod_256 [of n] by simp
      ultimately show False using pos by simp
    qed
    ultimately show ?thesis using pos small
      by (subst abs_bytes.simps) simp
  qed
qed

lemma hd_Bytes: "0 < n \<Longrightarrow> hd (Bytes n) \<noteq> 0"
  by (simp add: Bytes_def hd_abs_bytes)

section \<open>IPv6 text: one group\<close>

lemma group_bounds: "0 \<le> group p i \<and> group p i \<le> 0xFFFF \<and> group p i < big"
proof -
  have "0 \<le> uint (p ! i)" "uint (p ! i) \<le> 255" "0 \<le> uint (p ! (i + 1))" "uint (p ! (i + 1)) \<le> 255"
    using uint_byte_bounds [of "p ! i"] uint_byte_bounds [of "p ! (i + 1)"] by auto
  then show ?thesis by (simp add: group_def big_def)
qed

lemma group_bytes:
  "(word_of_int (group p i div 256) :: byte) = p ! i \<and> (word_of_int (group p i) :: byte) = p ! (i + 1)"
proof -
  have lo: "0 \<le> uint (p ! (i + 1))" "uint (p ! (i + 1)) < 256"
    using uint_byte_bounds [of "p ! (i + 1)"] by auto
  then have "group p i div 256 = uint (p ! i)"
    by (simp add: group_def)
  moreover have "(word_of_int (uint (p ! i) * 256 + uint (p ! (i + 1))) :: byte) = p ! (i + 1)"
  proof -
    have z: "(256 :: byte) = 0" by simp
    show ?thesis by (simp add: z)
  qed
  ultimately show ?thesis by (simp add: group_def)
qed

lemma hd_appendHex:
  "0 \<le> n \<Longrightarrow> hd (appendHex n @ rest) \<noteq> CHR '':'' \<and> hd (appendHex n @ rest) \<noteq> CHR ''.''"
  using appendHex_chars [of n] appendHex_nonempty [of n]
  by (cases "appendHex n") auto

lemma not_hex_colon:
  "\<not> (isDigit (CHR '':'') \<or> isLowerHex (CHR '':'') \<or> isUpperHex (CHR '':''))"
  by (simp add: sep_not_digit)

lemma xtoi_group_colon:
  "xtoi (appendHex (group p i) @ CHR '':'' # rest) = (group p i, length (appendHex (group p i)), True)"
  using xtoi_appendHex [of "group p i" "CHR '':'' # rest"] group_bounds [of p i] not_hex_colon
  by simp

lemma xtoi_group_end:
  "xtoi (appendHex (group p i)) = (group p i, length (appendHex (group p i)), True)"
  using xtoi_appendHex [of "group p i" "[]"] group_bounds [of p i]
  by simp

text \<open>The four ways the loop leaves a group.\<close>

lemma loop_group_end:
  assumes "length acc < 16"
  shows "parseIPv6_loop acc e (appendHex (group p i)) = Some (acc @ [p ! i, p ! (i + 1)], e, [])"
  using assms group_bounds [of p i] group_bytes [of p i]
  by (subst parseIPv6_loop.simps) (simp add: xtoi_group_end IPv6len_def Let_def)

lemma loop_group_more:
  assumes "length acc < 16" and "rest \<noteq> []" and "hd rest \<noteq> CHR '':''"
  shows "parseIPv6_loop acc e (appendHex (group p i) @ CHR '':'' # rest) =
           parseIPv6_loop (acc @ [p ! i, p ! (i + 1)]) e rest"
  using assms group_bounds [of p i] group_bytes [of p i]
  by (subst parseIPv6_loop.simps)
     (simp add: xtoi_group_colon IPv6len_def Let_def nth_append)

lemma loop_group_ellipsis_end:
  assumes "length acc < 16"
  shows "parseIPv6_loop acc None (appendHex (group p i) @ ''::'') =
           Some (acc @ [p ! i, p ! (i + 1)], Some (length acc + 2), [])"
  using assms group_bounds [of p i] group_bytes [of p i]
  by (subst parseIPv6_loop.simps)
     (simp add: xtoi_group_colon IPv6len_def Let_def nth_append)

lemma loop_group_ellipsis_more:
  assumes "length acc < 16" and "rest \<noteq> []"
  shows "parseIPv6_loop acc None (appendHex (group p i) @ CHR '':'' # CHR '':'' # rest) =
           parseIPv6_loop (acc @ [p ! i, p ! (i + 1)]) (Some (length acc + 2)) rest"
  using assms group_bounds [of p i] group_bytes [of p i]
  by (subst parseIPv6_loop.simps)
     (simp add: xtoi_group_colon IPv6len_def Let_def nth_append)

section \<open>IPv6 text: the printing loop\<close>

lemma print6_plain:
  assumes "i < 16" and "int i \<noteq> e0 \<or> e1 \<le> e0"
  shows "print6 p e0 e1 i =
           (if 0 < i then '':'' else []) @ appendHex (group p i) @ print6 p e0 e1 (i + 2)"
  using assms by (subst print6.simps) (auto simp: IPv6len_def)

lemma print6_done: "16 \<le> i \<Longrightarrow> print6 p e0 e1 i = []"
  by (subst print6.simps) (simp add: IPv6len_def)

lemma print6_ellipsis:
  assumes "a < 16" and "a < b"
  shows "print6 p (int a) (int b) a =
           (if 16 \<le> b then ''::''
            else ''::'' @ appendHex (group p b) @ print6 p (int a) (int b) (b + 2))"
  using assms by (subst print6.simps) (simp add: IPv6len_def)

lemma take_Suc_Suc:
  "i + 1 < length p \<Longrightarrow> take i p @ [p ! i, p ! (i + 1)] = take (i + 2) p"
  by (simp add: take_Suc_conv_app_nth)

text \<open>After the ellipsis: the loop reads the groups from byte \<open>i\<close> to the end.\<close>

lemma loop_after_ellipsis:
  assumes "length p = 16" and "a < b" and "even b" and "even i" and "b \<le> i" and "i < 16"
  shows "parseIPv6_loop (take a p @ take (i - b) (drop b p)) (Some a)
           (appendHex (group p i) @ print6 p (int a) (int b) (i + 2)) =
         Some (take a p @ drop b p, Some a, [])"
  using assms(4-6)
proof (induction "16 - i" arbitrary: i rule: less_induct)
  case less
  from less.prems assms have len: "length (take a p @ take (i - b) (drop b p)) < 16"
    by simp
  from less.prems have i1: "i + 1 < 16" by presburger
  have step: "take a p @ take (i - b) (drop b p) @ [p ! i, p ! (i + 1)] =
        take a p @ take (i + 2 - b) (drop b p)"
  proof -
    have "take (i - b) (drop b p) @ [drop b p ! (i - b), drop b p ! (i - b + 1)] =
            take (i - b + 2) (drop b p)"
      using take_Suc_Suc [of "i - b" "drop b p"] i1 less.prems assms(1) by simp
    moreover have "drop b p ! (i - b) = p ! i" "drop b p ! (i - b + 1) = p ! (i + 1)"
      using less.prems assms(1) i1 by simp_all
    moreover have "i - b + 2 = i + 2 - b" using less.prems by simp
    ultimately show ?thesis by simp
  qed
  show ?case
  proof (cases "i + 2 < 16")
    case False
    with i1 have i: "i + 2 = 16" by simp
    then have "print6 p (int a) (int b) (i + 2) = []" by (simp add: print6_done)
    moreover have "take (i + 2 - b) (drop b p) = drop b p"
      using i assms(1) by simp
    ultimately show ?thesis
      using loop_group_end [OF len, of "Some a" p i] step by simp
  next
    case True
    from less.prems assms(2) have "int (i + 2) \<noteq> int a" by simp
    with True have pr: "print6 p (int a) (int b) (i + 2) =
        CHR '':'' # appendHex (group p (i + 2)) @ print6 p (int a) (int b) (i + 2 + 2)"
      by (simp add: print6_plain)
    have ne: "appendHex (group p (i + 2)) @ print6 p (int a) (int b) (i + 2 + 2) \<noteq> []"
      using appendHex_nonempty by simp
    have hd: "hd (appendHex (group p (i + 2)) @ print6 p (int a) (int b) (i + 2 + 2)) \<noteq> CHR '':''"
      using hd_appendHex group_bounds by blast
    have "parseIPv6_loop (take a p @ take (i - b) (drop b p)) (Some a)
           (appendHex (group p i) @ print6 p (int a) (int b) (i + 2)) =
          parseIPv6_loop (take a p @ take (i + 2 - b) (drop b p)) (Some a)
           (appendHex (group p (i + 2)) @ print6 p (int a) (int b) (i + 2 + 2))"
      using loop_group_more [OF len ne hd, of "Some a" p i] step pr by simp
    also have "\<dots> = Some (take a p @ drop b p, Some a, [])"
      using less.hyps [of "i + 2"] True less.prems by simp
    finally show ?thesis .
  qed
qed

text \<open>Before the ellipsis, or without one.\<close>

lemma loop_no_ellipsis:
  assumes "length p = 16" and "even i" and "i < 16"
  shows "parseIPv6_loop (take i p) None
           (appendHex (group p i) @ print6 p (- 1) (- 1) (i + 2)) = Some (p, None, [])"
  using assms(2,3)
proof (induction "16 - i" arbitrary: i rule: less_induct)
  case less
  from less.prems assms(1) have len: "length (take i p) < 16" by simp
  from less.prems have i1: "i + 1 < 16" by presburger
  have step: "take i p @ [p ! i, p ! (i + 1)] = take (i + 2) p"
    using take_Suc_Suc [of i p] i1 assms(1) by simp
  show ?case
  proof (cases "i + 2 < 16")
    case False
    with i1 have i: "i + 2 = 16" by simp
    then have "print6 p (- 1) (- 1) (i + 2) = []" by (simp add: print6_done)
    moreover have "take (i + 2) p = p" using i assms(1) by simp
    ultimately show ?thesis
      using loop_group_end [OF len, of None p i] step by simp
  next
    case True
    then have pr: "print6 p (- 1) (- 1) (i + 2) =
        CHR '':'' # appendHex (group p (i + 2)) @ print6 p (- 1) (- 1) (i + 2 + 2)"
      by (simp add: print6_plain)
    have ne: "appendHex (group p (i + 2)) @ print6 p (- 1) (- 1) (i + 2 + 2) \<noteq> []"
      using appendHex_nonempty by simp
    have hd: "hd (appendHex (group p (i + 2)) @ print6 p (- 1) (- 1) (i + 2 + 2)) \<noteq> CHR '':''"
      using hd_appendHex group_bounds by blast
    have "parseIPv6_loop (take i p) None
           (appendHex (group p i) @ print6 p (- 1) (- 1) (i + 2)) =
          parseIPv6_loop (take (i + 2) p) None
           (appendHex (group p (i + 2)) @ print6 p (- 1) (- 1) (i + 2 + 2))"
      using loop_group_more [OF len ne hd, of None p i] step pr by simp
    also have "\<dots> = Some (p, None, [])"
      using less.hyps [of "i + 2"] True less.prems by simp
    finally show ?thesis .
  qed
qed

lemma loop_before_ellipsis:
  assumes "length p = 16" and "a < b" and "even a" and "even b" and "b \<le> 16"
    and "even i" and "i < a"
  shows "parseIPv6_loop (take i p) None
           (appendHex (group p i) @ print6 p (int a) (int b) (i + 2)) =
         Some (take a p @ drop b p, Some a, [])"
  using assms(6,7)
proof (induction "16 - i" arbitrary: i rule: less_induct)
  case less
  from less.prems assms have a16: "a < 16" and i16: "i < 16" by simp_all
  from i16 assms(1) have len: "length (take i p) < 16" by simp
  from less.prems i16 have i1: "i + 1 < 16" by presburger
  have step: "take i p @ [p ! i, p ! (i + 1)] = take (i + 2) p"
    using take_Suc_Suc [of i p] i1 assms(1) by simp
  from less.prems assms(3) have ia: "i + 2 \<le> a" by presburger
  show ?case
  proof (cases "i + 2 = a")
    case True
    show ?thesis
    proof (cases "16 \<le> b")
      case True
      with assms(5) have b: "b = 16" by simp
      have "print6 p (int a) (int b) (i + 2) = ''::''"
        using print6_ellipsis [OF a16 assms(2), of p] \<open>i + 2 = a\<close> True by simp
      moreover have "take a p @ drop b p = take a p" using b assms(1) by simp
      moreover have "length (take i p) + 2 = a" using \<open>i + 2 = a\<close> i16 assms(1) by simp
      ultimately show ?thesis
        using loop_group_ellipsis_end [OF len, of p i] step \<open>i + 2 = a\<close> by simp
    next
      case False
      then have b16: "b < 16" by simp
      have pr: "print6 p (int a) (int b) (i + 2) =
          CHR '':'' # CHR '':'' # appendHex (group p b) @ print6 p (int a) (int b) (b + 2)"
        using print6_ellipsis [OF a16 assms(2), of p] \<open>i + 2 = a\<close> False by simp
      have ne: "appendHex (group p b) @ print6 p (int a) (int b) (b + 2) \<noteq> []"
        using appendHex_nonempty by simp
      have la: "length (take i p) + 2 = a" using \<open>i + 2 = a\<close> i16 assms(1) by simp
      have "parseIPv6_loop (take i p) None
              (appendHex (group p i) @ print6 p (int a) (int b) (i + 2)) =
            parseIPv6_loop (take a p) (Some a)
              (appendHex (group p b) @ print6 p (int a) (int b) (b + 2))"
        using loop_group_ellipsis_more [OF len ne, of p i] step pr la \<open>i + 2 = a\<close> by simp
      also have "\<dots> = Some (take a p @ drop b p, Some a, [])"
        using loop_after_ellipsis [OF assms(1,2,4), of b] assms(4) b16 by simp
      finally show ?thesis .
    qed
  next
    case False
    with ia have lt: "i + 2 < a" by simp
    with a16 have lt16: "i + 2 < 16" by simp
    moreover from lt have "int (i + 2) \<noteq> int a" by simp
    ultimately have pr: "print6 p (int a) (int b) (i + 2) =
        CHR '':'' # appendHex (group p (i + 2)) @ print6 p (int a) (int b) (i + 2 + 2)"
      by (simp add: print6_plain)
    have ne: "appendHex (group p (i + 2)) @ print6 p (int a) (int b) (i + 2 + 2) \<noteq> []"
      using appendHex_nonempty by simp
    have hd: "hd (appendHex (group p (i + 2)) @ print6 p (int a) (int b) (i + 2 + 2)) \<noteq> CHR '':''"
      using hd_appendHex group_bounds by blast
    have "parseIPv6_loop (take i p) None
           (appendHex (group p i) @ print6 p (int a) (int b) (i + 2)) =
          parseIPv6_loop (take (i + 2) p) None
           (appendHex (group p (i + 2)) @ print6 p (int a) (int b) (i + 2 + 2))"
      using loop_group_more [OF len ne hd, of None p i] step pr by simp
    also have "\<dots> = Some (take a p @ drop b p, Some a, [])"
      using less.hyps [of "i + 2"] lt lt16 less.prems by simp
    finally show ?thesis .
  qed
qed

section \<open>IPv6 text: the run of zeros\<close>

lemma zero_run_props:
  "even j \<Longrightarrow> j \<le> 16 \<Longrightarrow>
   j \<le> zero_run p j \<and> zero_run p j \<le> 16 \<and> even (zero_run p j) \<and>
   (\<forall>k. j \<le> k \<and> k < zero_run p j \<longrightarrow> p ! k = 0)"
proof (induction p j rule: zero_run.induct)
  case (1 p j)
  show ?case
  proof (cases "j < IPv6len \<and> p ! j = 0 \<and> p ! (j + 1) = 0")
    case True
    with "1.prems" have j2: "even (j + 2)" "j + 2 \<le> 16"
      by (auto simp: IPv6len_def)
    from "1.IH" [OF True j2] have ih:
      "j + 2 \<le> zero_run p (j + 2)" "zero_run p (j + 2) \<le> 16" "even (zero_run p (j + 2))"
      "\<forall>k. j + 2 \<le> k \<and> k < zero_run p (j + 2) \<longrightarrow> p ! k = 0"
      by auto
    have eq: "zero_run p j = zero_run p (j + 2)"
      using True by (subst zero_run.simps) simp
    have "p ! k = 0" if "j \<le> k" "k < zero_run p (j + 2)" for k
    proof -
      from that consider "k = j" | "k = j + 1" | "j + 2 \<le> k" by linarith
      then show ?thesis using True ih(4) that by cases auto
    qed
    with ih eq show ?thesis by auto
  next
    case False
    then have "zero_run p j = j" by (subst zero_run.simps) auto
    with "1.prems" show ?thesis by auto
  qed
qed

lemma longest_run_ok:
  "even i \<Longrightarrow> run_ok p e0 e1 \<Longrightarrow> run_ok p (fst (longest_run p i e0 e1)) (snd (longest_run p i e0 e1))"
proof (induction p i e0 e1 rule: longest_run.induct)
  case (1 p i e0 e1)
  show ?case
  proof (cases "i < IPv6len")
    case False
    then have "longest_run p i e0 e1 = (e0, e1)" by (subst longest_run.simps) simp
    with "1.prems" show ?thesis by simp
  next
    case True
    then have i16: "i \<le> 16" by (simp add: IPv6len_def)
    note zr = zero_run_props [OF "1.prems"(1) i16, of p]
    show ?thesis
    proof (cases "i < zero_run p i \<and> e1 - e0 < int (zero_run p i) - int i")
      case yes: True
      have ok: "run_ok p (int i) (int (zero_run p i))"
        unfolding run_ok_def using zr yes "1.prems"(1)
        by (intro disjI2 exI [of _ i] exI [of _ "zero_run p i"]) (auto simp: list_all_iff)
      have ev: "even (zero_run p i + 2)" using zr by simp
      have "longest_run p i e0 e1 = longest_run p (zero_run p i + 2) (int i) (int (zero_run p i))"
        using True yes by (subst longest_run.simps) (simp add: Let_def)
      with "1.IH"(1) [OF True refl yes ev ok] show ?thesis by simp
    next
      case no: False
      have ev: "even (i + 2)" using "1.prems"(1) by simp
      have "longest_run p i e0 e1 = longest_run p (i + 2) e0 e1"
        using True no by (subst longest_run.simps) (auto simp: Let_def)
      with "1.IH"(2) [OF True refl no ev "1.prems"(2)] show ?thesis by simp
    qed
  qed
qed

section \<open>IPv6 text: the round trip\<close>

lemma parseIPv6_nolead:
  assumes "s \<noteq> []" and "hd s \<noteq> CHR '':''"
    and "parseIPv6_loop [] None s = Some (acc, e, [])"
  shows "parseIPv6 s = spread acc e"
proof -
  from assms(1,2) have "s ! 0 \<noteq> CHR '':''" by (simp add: hd_conv_nth)
  with assms(1,3) show ?thesis
    by (simp add: parseIPv6_def Let_def IPv6len_def spread_def split: option.splits)
qed

lemma parseIPv6_lead:
  assumes "rest \<noteq> []" and "parseIPv6_loop [] (Some 0) rest = Some (acc, e, [])"
  shows "parseIPv6 (CHR '':'' # CHR '':'' # rest) = spread acc e"
  using assms by (simp add: parseIPv6_def Let_def IPv6len_def spread_def split: option.splits)

lemma parseIPv6_only_ellipsis: "parseIPv6 ''::'' = replicate 16 0"
  by (simp add: parseIPv6_def Let_def IPv6len_def)

lemma parseIPv6_print6_plain:
  assumes "length p = 16"
  shows "parseIPv6 (print6 p (- 1) (- 1) 0) = p"
proof -
  have pr: "print6 p (- 1) (- 1) 0 = appendHex (group p 0) @ print6 p (- 1) (- 1) (0 + 2)"
    using print6_plain [of 0 "- 1" "- 1" p] by simp
  have hd: "hd (appendHex (group p 0) @ print6 p (- 1) (- 1) (0 + 2)) \<noteq> CHR '':''"
    using hd_appendHex group_bounds by blast
  have ne: "appendHex (group p 0) @ print6 p (- 1) (- 1) (0 + 2) \<noteq> []"
    using appendHex_nonempty by simp
  have "parseIPv6_loop [] None (print6 p (- 1) (- 1) 0) = Some (p, None, [])"
    using loop_no_ellipsis [OF assms, of 0] pr by simp
  from parseIPv6_nolead [OF _ _ this] hd ne pr assms show ?thesis
    by (simp add: spread_def)
qed

lemma zeros_replicate:
  assumes "list_all (\<lambda>k. p ! k = 0) [a..<b]" and "b \<le> length p" and "a \<le> b"
  shows "take a p @ replicate (b - a) 0 @ drop b p = (p :: byte list)"
proof -
  have "take (b - a) (drop a p) = replicate (b - a) 0"
  proof (rule nth_equalityI)
    show "length (take (b - a) (drop a p)) = length (replicate (b - a) (0 :: byte))"
      using assms(2,3) by simp
  next
    fix i assume "i < length (take (b - a) (drop a p))"
    with assms(2,3) have i: "i < b - a" by simp
    with assms(1) have "p ! (a + i) = 0" by (auto simp: list_all_iff)
    with i assms(2,3) show "take (b - a) (drop a p) ! i = replicate (b - a) 0 ! i"
      by simp
  qed
  moreover have "drop (b - a) (drop a p) = drop b p" using assms(3) by simp
  ultimately have "take a p @ replicate (b - a) 0 @ drop b p =
      take a p @ (take (b - a) (drop a p) @ drop (b - a) (drop a p))"
    by (simp only:)
  also have "\<dots> = take a p @ drop a p" by (simp only: append_take_drop_id)
  also have "\<dots> = p" by (simp only: append_take_drop_id)
  finally show ?thesis .
qed

lemma parseIPv6_print6_ellipsis:
  assumes "length p = 16" and "a < b" and "b \<le> 16" and "even a" and "even b"
    and "list_all (\<lambda>k. p ! k = 0) [a..<b]"
  shows "parseIPv6 (print6 p (int a) (int b) 0) = p"
proof (cases "a = 0")
  case True
  have pr: "print6 p (int a) (int b) 0 =
      (if 16 \<le> b then ''::''
       else ''::'' @ appendHex (group p b) @ print6 p (int a) (int b) (b + 2))"
    using print6_ellipsis [of a b p] assms(2) True by simp
  show ?thesis
  proof (cases "16 \<le> b")
    case True
    with assms(3) have b: "b = 16" by simp
    from zeros_replicate [OF assms(6)] assms(1) \<open>a = 0\<close> b have "replicate 16 0 = p" by simp
    with pr True show ?thesis
      by (simp add: parseIPv6_only_ellipsis)
  next
    case False
    then have b16: "b < 16" by simp
    have "parseIPv6_loop (take a p) (Some a)
            (appendHex (group p b) @ print6 p (int a) (int b) (b + 2)) =
          Some (take a p @ drop b p, Some a, [])"
      using loop_after_ellipsis [OF assms(1,2,5), of b] assms(5) b16 by simp
    moreover have "appendHex (group p b) @ print6 p (int a) (int b) (b + 2) \<noteq> []"
      using appendHex_nonempty by simp
    moreover have "replicate b 0 @ drop b p = p"
      using zeros_replicate [OF assms(6)] assms(1,3) \<open>a = 0\<close> by simp
    ultimately show ?thesis
      using parseIPv6_lead [of "appendHex (group p b) @ print6 p (int a) (int b) (b + 2)"
          "take a p @ drop b p" "Some a"] pr False \<open>a = 0\<close> assms(1,2) b16
      by (simp add: spread_def)
  qed
next
  case False
  then have a0: "0 < a" by simp
  from assms(2,3) have a16: "a < 16" by simp
  have pr: "print6 p (int a) (int b) 0 =
      appendHex (group p 0) @ print6 p (int a) (int b) (0 + 2)"
    using print6_plain [of 0 "int a" "int b" p] a0 by simp
  have hd: "hd (appendHex (group p 0) @ print6 p (int a) (int b) (0 + 2)) \<noteq> CHR '':''"
    using hd_appendHex group_bounds by blast
  have ne: "appendHex (group p 0) @ print6 p (int a) (int b) (0 + 2) \<noteq> []"
    using appendHex_nonempty by simp
  have loop: "parseIPv6_loop [] None (print6 p (int a) (int b) 0) =
      Some (take a p @ drop b p, Some a, [])"
    using loop_before_ellipsis [OF assms(1,2,4,5,3), of 0] a0 pr by simp
  have "take a (take a p @ drop b p) @ replicate (16 - length (take a p @ drop b p)) 0 @
          drop a (take a p @ drop b p) = take a p @ replicate (b - a) 0 @ drop b p"
    using assms(1,2,3) a16 by simp
  also have "\<dots> = p" using zeros_replicate [OF assms(6)] assms(1,2,3) by simp
  finally have expand: "take a (take a p @ drop b p) @
      replicate (16 - length (take a p @ drop b p)) 0 @ drop a (take a p @ drop b p) = p" .
  have short: "length (take a p @ drop b p) < 16" using assms(1,2,3) by simp
  have "spread (take a p @ drop b p) (Some a) = p"
    unfolding spread_def using expand short by (simp del: length_append take_append drop_append)
  with parseIPv6_nolead [OF _ _ loop] hd ne pr show ?thesis
    by simp
qed

lemma parseIPv6_IP_String:
  assumes "length p = 16" and "IP_To4 p = []"
  shows "parseIPv6 (IP_String p) = p"
proof -
  obtain e0 e1 where lr: "longest_run p 0 (- 1) (- 1) = (e0, e1)"
    by (cases "longest_run p 0 (- 1) (- 1)")
  have ok: "run_ok p e0 e1"
    using longest_run_ok [of 0 p "- 1" "- 1"] lr by (simp add: run_ok_def)
  from assms have str: "IP_String p =
      (if e1 - e0 \<le> 2 then print6 p (- 1) (- 1) 0 else print6 p e0 e1 0)"
    by (simp add: IP_String_def lr IPv6len_def IPv4len_def)
  show ?thesis
  proof (cases "e1 - e0 \<le> 2")
    case True
    with str parseIPv6_print6_plain [OF assms(1)] show ?thesis by simp
  next
    case False
    with ok obtain a b where "e0 = int a" "e1 = int b" "a < b" "b \<le> 16" "even a" "even b"
      "list_all (\<lambda>k. p ! k = 0) [a..<b]"
      by (auto simp: run_ok_def)
    with str False parseIPv6_print6_ellipsis [OF assms(1), of a b] show ?thesis by simp
  qed
qed

section \<open>IPv6 text: the characters\<close>

lemma print6_chars:
  "list_all (\<lambda>c. c \<noteq> CHR ''.'' \<and> c \<noteq> CHR ''/'') (print6 p e0 e1 i)"
proof (induction p e0 e1 i rule: print6.induct)
  case (1 p e0 e1 i)
  have hex: "list_all (\<lambda>c. c \<noteq> CHR ''.'' \<and> c \<noteq> CHR ''/'') (appendHex (group p k))" for k
    using appendHex_chars [of "group p k"] group_bounds [of p k] by (auto simp: list_all_iff)
  show ?case
  proof (cases "i < IPv6len")
    case False
    then show ?thesis by (subst print6.simps) simp
  next
    case True
    show ?thesis
    proof (cases "int i = e0 \<and> e0 < e1")
      case at: True
      show ?thesis
      proof (cases "IPv6len \<le> nat e1")
        case True
        with at \<open>i < IPv6len\<close> show ?thesis by (subst print6.simps) simp
      next
        case False
        from "1.IH"(1) [OF \<open>i < IPv6len\<close> at False] hex [of "nat e1"] at \<open>i < IPv6len\<close> False
        show ?thesis by (subst print6.simps) simp
      qed
    next
      case False
      from "1.IH"(2) [OF True False] hex [of i] True False
      show ?thesis by (subst print6.simps) auto
    qed
  qed
qed

lemma print6_has_colon: "CHR '':'' \<in> set (print6 p e0 e1 0)"
proof (cases "(0::int) = e0 \<and> e0 < e1")
  case True
  then show ?thesis by (subst print6.simps) (simp add: IPv6len_def)
next
  case False
  have two: "CHR '':'' \<in> set (print6 p e0 e1 (0 + 2))"
    by (subst print6.simps) (simp add: IPv6len_def)
  from False have "print6 p e0 e1 0 = appendHex (group p 0) @ print6 p e0 e1 (0 + 2)"
    by (subst print6.simps) (auto simp: IPv6len_def)
  with two show ?thesis by simp
qed

lemma ParseIP_scan_v6:
  "list_all (\<lambda>c. c \<noteq> CHR ''.'') t \<Longrightarrow> CHR '':'' \<in> set t \<Longrightarrow> ParseIP_scan s t = parseIPv6 s"
  by (induction t) auto

lemma IP_String_16:
  assumes "length p = 16" and "IP_To4 p = []"
  shows "\<exists>e0 e1. IP_String p = print6 p e0 e1 0"
  using assms
  by (cases "longest_run p 0 (- 1) (- 1)") (auto simp: IP_String_def IPv6len_def IPv4len_def)

lemma ParseIP_IP_String_16:
  assumes "length p = 16" and "IP_To4 p = []"
  shows "ParseIP (IP_String p) = p"
proof -
  from IP_String_16 [OF assms] obtain e0 e1 where s: "IP_String p = print6 p e0 e1 0" by blast
  have "list_all (\<lambda>c. c \<noteq> CHR ''.'') (IP_String p)"
    using print6_chars [of p e0 e1 0] s by (auto simp: list_all_iff)
  moreover have "CHR '':'' \<in> set (IP_String p)"
    using print6_has_colon s by simp
  ultimately have "ParseIP (IP_String p) = parseIPv6 (IP_String p)"
    unfolding ParseIP_def by (rule ParseIP_scan_v6)
  with parseIPv6_IP_String [OF assms] show ?thesis by simp
qed

lemma IP_String_16_inj:
  assumes "length p = 16" and "IP_To4 p = []" and "length q = 16" and "IP_To4 q = []"
    and "IP_String p = IP_String q"
  shows "p = q"
  using ParseIP_IP_String_16 [OF assms(1,2)] ParseIP_IP_String_16 [OF assms(3,4)] assms(5)
  by metis

lemma peerAddress_ipv6:
  assumes "length p = 16" and "IP_To4 p = []"
  shows "peerAddress (IP_String p) = IP_String p @ ''/128''"
proof -
  have "networkNumberAndMask \<lparr>IP = p, Mask = CIDRMask 128 128\<rparr> = (p, CIDRMask 128 128)"
    using assms
    by (simp add: networkNumberAndMask_def length_CIDRMask_128 IPv4len_def IPv6len_def)
  moreover have "p \<noteq> []" "CIDRMask 128 128 \<noteq> []"
    using assms(1) length_CIDRMask_128 by auto
  ultimately have "IPNet_String \<lparr>IP = p, Mask = CIDRMask 128 128\<rparr> = IP_String p @ ''/128''"
    by (simp add: IPNet_String_def all_ones_128 itoa_128)
  then show ?thesis
    using assms by (simp add: peerAddress_def ParseIP_IP_String_16 IPv6len_def)
qed

section \<open>The networks \<open>ParseCIDR\<close> returns\<close>

lemma length_cidr_bytes: "length (cidr_bytes l n) = l"
  by (induction l n rule: cidr_bytes.induct) auto

lemma length_CIDRMask:
  "n \<le> 8 * l \<Longrightarrow> l = 4 \<or> l = 16 \<Longrightarrow> length (CIDRMask n (8 * l)) = l"
  by (auto simp: CIDRMask_def IPv4len_def IPv6len_def length_cidr_bytes)

lemma parseIPv4_shape: "parseIPv4 s = [] \<or> (\<exists>a b c d. parseIPv4 s = IPv4 a b c d)"
  by (auto simp: parseIPv4_def split: option.splits)

lemma parseIPv6_loop_cases:
  assumes "length acc < 16" and "parseIPv6_loop acc e s = Some res"
  shows "(\<exists>x y e' r. res = (acc @ [x, y], e', r)) \<or>
         (\<exists>a b c d. res = (acc @ [a, b, c, d], e, []) \<and> length acc + 4 \<le> 16) \<or>
         (\<exists>x y e' s'. parseIPv6_loop (acc @ [x, y]) e' s' = Some res)"
proof -
  obtain n c ok where x: "xtoi s = (n, c, ok)" by (cases "xtoi s")
  have v4: "\<exists>a b c d. drop 12 (parseIPv4 s) = [a, b, c, d]" if "parseIPv4 s \<noteq> []"
    using that parseIPv4_shape [of s] by (auto simp: IPv4_def v4InV6Prefix_def)
  from assms x v4 show ?thesis
    by (subst (asm) parseIPv6_loop.simps)
       (auto simp: Let_def IPv6len_def IPv4len_def split: if_splits)
qed

lemma parseIPv6_loop_length:
  "even (length acc) \<Longrightarrow> length acc \<le> 16 \<Longrightarrow>
   parseIPv6_loop acc e s = Some (acc', e', r) \<Longrightarrow> length acc' \<le> 16"
proof (induction "16 - length acc" arbitrary: acc e s rule: less_induct)
  case less
  show ?case
  proof (cases "length acc < 16")
    case False
    with less.prems show ?thesis
      by (subst (asm) parseIPv6_loop.simps) (simp add: IPv6len_def)
  next
    case True
    with less.prems(1) have two: "length acc + 2 \<le> 16" by presburger
    from parseIPv6_loop_cases [OF True less.prems(3)]
    consider x y e'' r' where "(acc', e', r) = (acc @ [x, y], e'', r')"
      | a b c d where "(acc', e', r) = (acc @ [a, b, c, d], e, [])" "length acc + 4 \<le> 16"
      | x y e'' s' where "parseIPv6_loop (acc @ [x, y]) e'' s' = Some (acc', e', r)"
      by blast
    then show ?thesis
    proof cases
      case 1
      with two show ?thesis by simp
    next
      case 2
      then show ?thesis by simp
    next
      case 3
      have "16 - length (acc @ [x, y]) < 16 - length acc" using True by simp
      moreover have "even (length (acc @ [x, y]))" using less.prems(1) by simp
      moreover have "length (acc @ [x, y]) \<le> 16" using two by simp
      ultimately show ?thesis using less.hyps 3 by blast
    qed
  qed
qed

lemma length_parseIPv6: "parseIPv6 s = [] \<or> length (parseIPv6 s) = 16"
proof -
  let ?lead = "2 \<le> length s \<and> s ! 0 = CHR '':'' \<and> s ! 1 = CHR '':''"
  let ?s = "if ?lead then drop 2 s else s"
  let ?e = "if ?lead then Some 0 else None"
  show ?thesis
  proof (cases "parseIPv6_loop [] ?e ?s")
    case None
    then show ?thesis by (auto simp: parseIPv6_def Let_def IPv6len_def)
  next
    case (Some res)
    obtain acc e r where res: "res = (acc, e, r)" by (cases res)
    from parseIPv6_loop_length [of "[]" ?e ?s acc e r] Some res have "length acc \<le> 16"
      by simp
    with Some res show ?thesis
      by (auto simp: parseIPv6_def Let_def IPv6len_def split: option.splits)
  qed
qed

lemma ParseCIDR_valid:
  assumes "ParseCIDR s = Inr (ip, net)"
  shows "valid_net net"
proof -
  from assms obtain i where i: "IndexByteString s (CHR ''/'') = Some i"
    by (auto simp: ParseCIDR_def split: option.splits)
  let ?addr = "take i s" and ?mask = "drop (i + 1) s"
  obtain n j ok where d: "dtoi ?mask = (n, j, ok)" by (cases "dtoi ?mask")
  show ?thesis
  proof (cases "parseIPv4 ?addr = []")
    case True
    with assms i d have n: "n \<le> 128" and ip6: "parseIPv6 ?addr \<noteq> []"
      and net: "net = \<lparr>IP = IP_Mask (parseIPv6 ?addr) (CIDRMask (nat n) 128),
                      Mask = CIDRMask (nat n) 128\<rparr>"
      by (auto simp: ParseCIDR_def Let_def IPv6len_def IPv4len_def split: if_splits)
    from ip6 length_parseIPv6 [of ?addr] have l: "length (parseIPv6 ?addr) = 16" by blast
    from n have m: "length (CIDRMask (nat n) 128) = 16"
      using length_CIDRMask [of "nat n" 16] by simp
    from l m have "length (IP_Mask (parseIPv6 ?addr) (CIDRMask (nat n) 128)) = 16"
      by (simp add: IP_Mask_def Let_def IPv4len_def IPv6len_def)
    with m net show ?thesis by (simp add: valid_net_def)
  next
    case False
    with assms i d have n: "n \<le> 32"
      and net: "net = \<lparr>IP = IP_Mask (parseIPv4 ?addr) (CIDRMask (nat n) 32),
                      Mask = CIDRMask (nat n) 32\<rparr>"
      by (auto simp: ParseCIDR_def Let_def IPv6len_def IPv4len_def split: if_splits)
    from False parseIPv4_shape [of ?addr] obtain a b c d where
      ip4: "parseIPv4 ?addr = IPv4 a b c d" by blast
    from n have m: "length (CIDRMask (nat n) 32) = 4"
      using length_CIDRMask [of "nat n" 4] by simp
    from m have "length (IP_Mask (IPv4 a b c d) (CIDRMask (nat n) 32)) = 4"
      by (simp add: IP_Mask_def Let_def IPv4len_def IPv6len_def IPv4_def v4InV6Prefix_def)
    with m net ip4 show ?thesis by (simp add: valid_net_def)
  qed
qed

section \<open>The number and the bytes of the allocated address\<close>

lemma requestVPNIP_assigned:
  "requestVPNIP (bare_Cluster (Some net) n) =
     (if length (Bytes (assigned net n)) < 2 then Inl SliceBoundsOutOfRange
      else if IPNet_Contains net
                (if length (Bytes (assigned net n)) = 16 then Bytes (assigned net n)
                 else drop 2 (Bytes (assigned net n)))
      then Inr (IP_String (if length (Bytes (assigned net n)) = 16 then Bytes (assigned net n)
                           else drop 2 (Bytes (assigned net n))), None)
      else Inr ([], Some (NotEnoughIPAddresses (IPNet_String net))))"
  by (simp add: requestVPNIP_def bare_Cluster_def assigned_def Let_def IPv6len_def)

lemma Contains_length:
  assumes "IPNet_Contains net x"
  shows "length (if IP_To4 x \<noteq> [] then IP_To4 x else x) = length (fst (networkNumberAndMask net))"
  using assms
  by (cases "networkNumberAndMask net") (auto simp: IPNet_Contains_def Let_def split: if_splits)

lemma IP_To4_length: "IP_To4 x = [] \<or> length (IP_To4 x) = 4"
  by (auto simp: IP_To4_def IPv4len_def IPv6len_def)

lemma IP_To4_prefix:
  assumes "length x = 16" and "IP_To4 x \<noteq> []"
  shows "x = v4InV6Prefix @ IP_To4 x"
proof -
  from assms have z: "list_all (\<lambda>b. b = 0) (take 10 x)" and ff: "x ! 10 = 0xff" "x ! 11 = 0xff"
    and d: "IP_To4 x = drop 12 x"
    by (auto simp: IP_To4_def IPv4len_def IPv6len_def split: if_splits)
  have "take 12 x = v4InV6Prefix"
  proof (rule nth_equalityI)
    show "length (take 12 x) = length v4InV6Prefix"
      using assms(1) by (simp add: v4InV6Prefix_def)
  next
    fix i assume "i < length (take 12 x)"
    with assms(1) have i: "i < 12" by simp
    then consider "i < 10" | "i = 10" | "i = 11" by linarith
    then show "take 12 x ! i = v4InV6Prefix ! i"
    proof cases
      case 1
      have "take 10 x ! i \<in> set (take 10 x)" using 1 assms(1) by (intro nth_mem) simp
      with z have "take 10 x ! i = 0" by (simp add: list_all_iff)
      with 1 have "x ! i = 0" by simp
      moreover from 1 have "v4InV6Prefix ! i = 0"
        using less_10_cases [OF 1] by (auto simp: v4InV6Prefix_def)
      ultimately show ?thesis using i by simp
    next
      case 2
      with ff show ?thesis by (simp add: v4InV6Prefix_def)
    next
      case 3
      with ff show ?thesis by (simp add: v4InV6Prefix_def)
    qed
  qed
  with d show ?thesis by (metis append_take_drop_id)
qed

lemma SetBytes_prefix: "SetBytes v4InV6Prefix = 0xFFFF"
  by code_simp

lemma family4:
  assumes "valid_net net" and "IP_To4 (IP net) \<noteq> []"
  shows "length (fst (networkNumberAndMask net)) = 4"
    and "IP_To16 (IP net) = v4InV6Prefix @ IP_To4 (IP net)"
    and "length (IP_To4 (IP net)) = 4"
proof -
  from assms(2) IP_To4_length [of "IP net"] show l: "length (IP_To4 (IP net)) = 4" by blast
  from assms l show "length (fst (networkNumberAndMask net)) = 4"
    by (auto simp: networkNumberAndMask_def valid_net_def Let_def IPv4len_def IPv6len_def)
  from assms(1) consider "length (IP net) = 4" | "length (IP net) = 16"
    by (auto simp: valid_net_def)
  then show "IP_To16 (IP net) = v4InV6Prefix @ IP_To4 (IP net)"
  proof cases
    case 1
    then have "IP net = [IP net ! 0, IP net ! 1, IP net ! 2, IP net ! 3]"
      by (rule length_4_eq)
    with 1 show ?thesis
      by (simp add: IP_To16_def IP_To4_def IPv4len_def IPv4_def)
  next
    case 2
    with IP_To4_prefix [OF 2 assms(2)] show ?thesis
      by (simp add: IP_To16_def IPv4len_def IPv6len_def)
  qed
qed

lemma family6:
  assumes "valid_net net" and "IP_To4 (IP net) = []"
  shows "length (fst (networkNumberAndMask net)) = 16"
    and "IP_To16 (IP net) = IP net"
    and "length (IP net) = 16"
proof -
  from assms show l: "length (IP net) = 16"
    by (auto simp: valid_net_def IP_To4_def IPv4len_def split: if_splits)
  with assms show "length (fst (networkNumberAndMask net)) = 16"
    by (auto simp: networkNumberAndMask_def valid_net_def Let_def IPv4len_def IPv6len_def)
  from l show "IP_To16 (IP net) = IP net"
    by (simp add: IP_To16_def IPv4len_def IPv6len_def)
qed

lemma assigned_family4:
  assumes "valid_net net" and "IP_To4 (IP net) \<noteq> []"
  shows "0xFFFF * 256 ^ 4 < assigned net n" and "assigned net 0 \<le> limit net"
proof -
  have b: "0 \<le> SetBytes (IP_To4 (IP net))" "SetBytes (IP_To4 (IP net)) < 256 ^ 4"
    using SetBytes_bounds [of "IP_To4 (IP net)"] family4(3) [OF assms] by auto
  have "assigned net n = 0xFFFF * 256 ^ 4 + SetBytes (IP_To4 (IP net)) + int (n + 1)" for n
    by (simp add: assigned_def family4(2) [OF assms] SetBytes_append SetBytes_prefix
        family4(3) [OF assms])
  with b assms(2) show "0xFFFF * 256 ^ 4 < assigned net n" "assigned net 0 \<le> limit net"
    by (simp_all add: limit_def)
qed

lemma assigned_family6:
  assumes "valid_net net" and "IP_To4 (IP net) = []"
  shows "0 < assigned net n" and "assigned net 0 \<le> limit net"
proof -
  have b: "0 \<le> SetBytes (IP net)" "SetBytes (IP net) < 256 ^ 16"
    using SetBytes_bounds [of "IP net"] family6(3) [OF assms] by auto
  have "assigned net n = SetBytes (IP net) + int (n + 1)" for n
    by (simp add: assigned_def family6(2) [OF assms])
  with b assms(2) show "0 < assigned net n" "assigned net 0 \<le> limit net"
    by (simp_all add: limit_def)
qed

section \<open>When the allocation succeeds\<close>

lemma assigned_step: "assigned net n = assigned net 0 + int n"
  by (simp add: assigned_def)

lemma alloc_limit_fails:
  assumes "valid_net net" and "assigned net n = limit net"
  shows "requestVPNIP (bare_Cluster (Some net) n) \<noteq> Inr (s, None)"
proof (cases "IP_To4 (IP net) = []")
  case False
  with assms(2) have v: "assigned net n = 256 ^ 6" by (simp add: limit_def)
  have "6 < length (Bytes (assigned net n))" by (rule length_Bytes_ge) (simp add: v)
  moreover have "length (Bytes (assigned net n)) \<le> 7"
    by (rule length_Bytes_le) (simp_all add: v)
  ultimately have l: "length (Bytes (assigned net n)) = 7" by simp
  then have d: "length (drop 2 (Bytes (assigned net n))) = 5" by simp
  then have "IP_To4 (drop 2 (Bytes (assigned net n))) = []"
    by (simp add: IP_To4_def IPv4len_def IPv6len_def)
  with Contains_length [of net "drop 2 (Bytes (assigned net n))"] d
    family4(1) [OF assms(1) False]
  have "\<not> IPNet_Contains net (drop 2 (Bytes (assigned net n)))" by auto
  with l show ?thesis by (simp add: requestVPNIP_assigned)
next
  case True
  with assms(2) have v: "assigned net n = 256 ^ 16" by (simp add: limit_def)
  have "16 < length (Bytes (assigned net n))" by (rule length_Bytes_ge) (simp add: v)
  moreover have "length (Bytes (assigned net n)) \<le> 17"
    by (rule length_Bytes_le) (simp_all add: v)
  ultimately have l: "length (Bytes (assigned net n)) = 17" by simp
  then have d: "length (drop 2 (Bytes (assigned net n))) = 15" by simp
  then have "IP_To4 (drop 2 (Bytes (assigned net n))) = []"
    by (simp add: IP_To4_def IPv4len_def IPv6len_def)
  with Contains_length [of net "drop 2 (Bytes (assigned net n))"] d
    family6(1) [OF assms(1) True]
  have "\<not> IPNet_Contains net (drop 2 (Bytes (assigned net n)))" by auto
  with l show ?thesis by (simp add: requestVPNIP_assigned)
qed

lemma alloc_below_limit:
  assumes "valid_net net"
    and "\<forall>k\<le>n. \<exists>s. requestVPNIP (bare_Cluster (Some net) k) = Inr (s, None)"
  shows "assigned net n < limit net"
proof (rule ccontr)
  assume "\<not> assigned net n < limit net"
  then have ge: "limit net \<le> assigned net n" by simp
  have base: "assigned net 0 \<le> limit net"
    using assigned_family4(2) [OF assms(1)] assigned_family6(2) [OF assms(1)] by blast
  define k where "k = nat (limit net - assigned net 0)"
  from base have "assigned net k = limit net"
    by (simp add: k_def assigned_step [of net "nat (limit net - assigned net 0)"])
  moreover from ge base have "k \<le> n"
    using assigned_step [of net n] by (simp add: k_def)
  ultimately show False
    using alloc_limit_fails [OF assms(1), of k] assms(2) by blast
qed

lemma alloc_family4:
  assumes "valid_net net" and "IP_To4 (IP net) \<noteq> []"
    and "assigned net n < 256 ^ 6"
    and "requestVPNIP (bare_Cluster (Some net) n) = Inr (s, None)"
  shows "\<exists>q. length q = 4 \<and> s = ipv4_String q \<and>
           SetBytes q = assigned net n - 0xFFFF * 256 ^ 4"
proof -
  let ?v = "assigned net n" and ?B = "Bytes (assigned net n)"
  from assigned_family4(1) [OF assms(1,2), of n] have lo: "0xFFFF * 256 ^ 4 < ?v" .
  then have pos: "0 \<le> ?v" by simp
  have "5 < length ?B" by (rule length_Bytes_ge) (use lo in simp)
  moreover have "length ?B \<le> 6" by (rule length_Bytes_le) (use pos assms(3) in simp_all)
  ultimately have l: "length ?B = 6" by simp
  then have d: "length (drop 2 ?B) = 4" by simp
  from assms(4) l have s: "s = IP_String (drop 2 ?B)"
    by (simp add: requestVPNIP_assigned split: if_splits)
  have "?v = SetBytes (take 2 ?B @ drop 2 ?B)"
    using SetBytes_Bytes [OF pos] by simp
  also have "\<dots> = SetBytes (take 2 ?B) * 256 ^ 4 + SetBytes (drop 2 ?B)"
    using SetBytes_append [of "take 2 ?B" "drop 2 ?B"] d by simp
  finally have split: "?v = SetBytes (take 2 ?B) * 256 ^ 4 + SetBytes (drop 2 ?B)" .
  have h: "0 \<le> SetBytes (take 2 ?B)" "SetBytes (take 2 ?B) < 256 ^ 2"
    using SetBytes_bounds [of "take 2 ?B"] l by auto
  have y: "0 \<le> SetBytes (drop 2 ?B)" "SetBytes (drop 2 ?B) < 256 ^ 4"
    using SetBytes_bounds [of "drop 2 ?B"] d by auto
  from split lo h y have "SetBytes (take 2 ?B) = 0xFFFF" by simp
  with split have "SetBytes (drop 2 ?B) = ?v - 0xFFFF * 256 ^ 4" by simp
  with d s show ?thesis
    by (intro exI [of _ "drop 2 ?B"]) (simp add: IP_String_4)
qed

lemma alloc_family6:
  assumes "valid_net net" and "IP_To4 (IP net) = []"
    and "assigned net n < 256 ^ 16"
    and "requestVPNIP (bare_Cluster (Some net) n) = Inr (s, None)"
  shows "length (Bytes (assigned net n)) = 16 \<and> IP_To4 (Bytes (assigned net n)) = [] \<and>
         s = IP_String (Bytes (assigned net n))"
proof -
  let ?v = "assigned net n" and ?B = "Bytes (assigned net n)"
  from assigned_family6(1) [OF assms(1,2), of n] have pos: "0 < ?v" .
  have le: "length ?B \<le> 16" by (rule length_Bytes_le) (use pos assms(3) in simp_all)
  have l: "length ?B = 16"
  proof (rule ccontr)
    assume ne: "length ?B \<noteq> 16"
    with assms(4) have c: "IPNet_Contains net (drop 2 ?B)"
      by (simp add: requestVPNIP_assigned split: if_splits)
    from ne le have short: "length (drop 2 ?B) < 16" by simp
    from Contains_length [OF c] family6(1) [OF assms(1,2)]
    have "length (if IP_To4 (drop 2 ?B) \<noteq> [] then IP_To4 (drop 2 ?B) else drop 2 ?B) = 16"
      by simp
    with short IP_To4_length [of "drop 2 ?B"] show False by (auto split: if_splits)
  qed
  with assms(4) have s: "s = IP_String ?B"
    by (simp add: requestVPNIP_assigned split: if_splits)
  from l have ne: "?B \<noteq> []" by auto
  from hd_Bytes [OF pos] ne have "?B ! 0 \<noteq> 0" by (simp add: hd_conv_nth)
  moreover from l have "?B ! 0 \<in> set (take 10 ?B)"
    using nth_mem [of 0 "take 10 ?B"] by simp
  ultimately have "\<not> list_all (\<lambda>b. b = 0) (take 10 ?B)"
    by (auto simp: list_all_iff)
  with l have "IP_To4 ?B = []"
    by (simp add: IP_To4_def IPv4len_def IPv6len_def)
  with l s show ?thesis by simp
qed

lemma peerAddress_distinct:
  assumes "valid_net net"
    and "\<forall>k\<le>j. \<exists>s. requestVPNIP (bare_Cluster (Some net) k) = Inr (s, None)"
    and "i < j"
    and "requestVPNIP (bare_Cluster (Some net) i) = Inr (s, None)"
    and "requestVPNIP (bare_Cluster (Some net) j) = Inr (t, None)"
  shows "peerAddress s \<noteq> peerAddress t"
proof
  assume eq: "peerAddress s = peerAddress t"
  from assms(2,3) have all_i: "\<forall>k\<le>i. \<exists>s. requestVPNIP (bare_Cluster (Some net) k) = Inr (s, None)"
    by auto
  note bi = alloc_below_limit [OF assms(1) all_i] and bj = alloc_below_limit [OF assms(1,2)]
  have "assigned net i = assigned net j"
  proof (cases "IP_To4 (IP net) = []")
    case False
    with bi bj have "assigned net i < 256 ^ 6" "assigned net j < 256 ^ 6"
      by (simp_all add: limit_def)
    from alloc_family4 [OF assms(1) False this(1) assms(4)]
         alloc_family4 [OF assms(1) False this(2) assms(5)]
    obtain p q where p: "length p = 4" "s = ipv4_String p"
        "SetBytes p = assigned net i - 0xFFFF * 256 ^ 4"
      and q: "length q = 4" "t = ipv4_String q"
        "SetBytes q = assigned net j - 0xFFFF * 256 ^ 4"
      by blast
    from eq p q have "ipv4_String p = ipv4_String q"
      by (simp add: peerAddress_ipv4)
    from ipv4_String_inj [OF p(1) q(1) this] p(3) q(3) show ?thesis by simp
  next
    case True
    with bi bj have "assigned net i < 256 ^ 16" "assigned net j < 256 ^ 16"
      by (simp_all add: limit_def)
    from alloc_family6 [OF assms(1) True this(1) assms(4)]
         alloc_family6 [OF assms(1) True this(2) assms(5)]
    have p: "length (Bytes (assigned net i)) = 16" "IP_To4 (Bytes (assigned net i)) = []"
        "s = IP_String (Bytes (assigned net i))"
      and q: "length (Bytes (assigned net j)) = 16" "IP_To4 (Bytes (assigned net j)) = []"
        "t = IP_String (Bytes (assigned net j))"
      by blast+
    from eq p q have "IP_String (Bytes (assigned net i)) = IP_String (Bytes (assigned net j))"
      by (simp add: peerAddress_ipv6)
    from IP_String_16_inj [OF p(1,2) q(1,2) this]
    have "SetBytes (Bytes (assigned net i)) = SetBytes (Bytes (assigned net j))" by simp
    moreover have "0 \<le> assigned net i" "0 \<le> assigned net j"
      using assigned_family6(1) [OF assms(1) True, of i]
        assigned_family6(1) [OF assms(1) True, of j] by simp_all
    ultimately show ?thesis by (simp add: SetBytes_Bytes)
  qed
  with assms(3) show False by (simp add: assigned_def)
qed

section \<open>The peer list\<close>

lemma allocated_GenerateVPNPeer:
  assumes "allocated c" and "GenerateVPNPeer k peerName c = Inr (c', None)"
  shows "allocated c'"
proof -
  from assms(1) obtain net where net: "Cluster.VPNCIDR c = Some net" "valid_net net"
    and old: "\<forall>i<length (Cluster.VPNPeers c).
           \<exists>s. requestVPNIP (bare_Cluster (Some net) i) = Inr (s, None) \<and>
               VPNPeer.Address (Cluster.VPNPeers c ! i) = peerAddress s"
    unfolding allocated_def by blast
  from GenerateVPNPeer_okD [OF assms(2)] obtain s and key :: Key where
    s: "requestVPNIP c = Inr (s, None)"
    and c': "c' = c\<lparr>Cluster.VPNPeers := Cluster.VPNPeers c @
              [\<lparr>VPNPeer.Name = peerName, VPNPeer.Address = peerAddress s,
                VPNPeer.PrivateKey = Key_String key,
                VPNPeer.PublicKey = PublicKey_String key\<rparr>]\<rparr>"
    by blast
  from s net(1) have new: "requestVPNIP (bare_Cluster (Some net) (length (Cluster.VPNPeers c))) = Inr (s, None)"
    using requestVPNIP_bare [of c] by simp
  have "\<exists>s. requestVPNIP (bare_Cluster (Some net) i) = Inr (s, None) \<and>
               VPNPeer.Address (Cluster.VPNPeers c' ! i) = peerAddress s"
    if "i < length (Cluster.VPNPeers c')" for i
  proof (cases "i < length (Cluster.VPNPeers c)")
    case True
    with old show ?thesis by (simp add: c' nth_append)
  next
    case False
    with that have "i = length (Cluster.VPNPeers c)" by (simp add: c')
    with new show ?thesis by (simp add: c')
  qed
  with net show ?thesis unfolding allocated_def by (simp add: c')
qed

lemma allocated_NewCluster:
  assumes "NewCluster g clusterName vpnCIDR e a = Inr (Some c, None)"
  shows "allocated c"
proof -
  from NewCluster_okD [OF assms] obtain ip net cas etcd api where
    parse: "ParseCIDR vpnCIDR = Inr (ip, net)"
    and gen: "GenerateVPNPeer (GeneratePrivateKey g) ''control-plane-ingress''
       \<lparr>Cluster.Name = clusterName,
        Cluster.CertificateAuthorities = Some cas,
        Cluster.EtcdServer = Some etcd,
        Cluster.APIServer = Some api,
        Cluster.StorageClientEndpoints = [],
        Cluster.StoragePeerEndpoints = [],
        Cluster.VPNCIDR = Some net,
        Cluster.VPNPeers = []\<rparr> = Inr (c, None)"
    by blast
  from ParseCIDR_valid [OF parse]
  have "allocated \<lparr>Cluster.Name = clusterName,
        Cluster.CertificateAuthorities = Some cas,
        Cluster.EtcdServer = Some etcd,
        Cluster.APIServer = Some api,
        Cluster.StorageClientEndpoints = [],
        Cluster.StoragePeerEndpoints = [],
        Cluster.VPNCIDR = Some net,
        Cluster.VPNPeers = []\<rparr>"
    by (simp add: allocated_def)
  from allocated_GenerateVPNPeer [OF this gen] show ?thesis .
qed

lemma allocated_GenerateVPNPeers:
  "allocated c \<Longrightarrow> GenerateVPNPeers calls c = Some c' \<Longrightarrow> allocated c'"
proof (induction calls arbitrary: c)
  case Nil
  then show ?case by simp
next
  case (Cons call rest)
  obtain k peerName where call: "call = (k, peerName)" by (cases call)
  from Cons.prems(2) call obtain c1 where
    step: "GenerateVPNPeer k peerName c = Inr (c1, None)" and
    rest: "GenerateVPNPeers rest c1 = Some c'"
    by (auto split: sum.splits prod.splits option.splits)
  from Cons.IH [OF allocated_GenerateVPNPeer [OF Cons.prems(1) step] rest] show ?case .
qed

lemma allocated_distinct:
  assumes "allocated c"
  shows "distinct (map VPNPeer.Address (Cluster.VPNPeers c))"
proof -
  from assms obtain net where net: "valid_net net"
    and all: "\<forall>i<length (Cluster.VPNPeers c).
           \<exists>s. requestVPNIP (bare_Cluster (Some net) i) = Inr (s, None) \<and>
               VPNPeer.Address (Cluster.VPNPeers c ! i) = peerAddress s"
    unfolding allocated_def by blast
  have less: "VPNPeer.Address (Cluster.VPNPeers c ! i) \<noteq> VPNPeer.Address (Cluster.VPNPeers c ! j)"
    if "i < j" "j < length (Cluster.VPNPeers c)" for i j
  proof -
    from that all obtain s t where
      s: "requestVPNIP (bare_Cluster (Some net) i) = Inr (s, None)"
         "VPNPeer.Address (Cluster.VPNPeers c ! i) = peerAddress s"
      and t: "requestVPNIP (bare_Cluster (Some net) j) = Inr (t, None)"
         "VPNPeer.Address (Cluster.VPNPeers c ! j) = peerAddress t"
      by (meson less_trans)
    from that all have "\<forall>k\<le>j. \<exists>s. requestVPNIP (bare_Cluster (Some net) k) = Inr (s, None)"
      by (meson le_less_trans)
    from peerAddress_distinct [OF net this that(1) s(1) t(1)] s(2) t(2) show ?thesis by simp
  qed
  have "VPNPeer.Address (Cluster.VPNPeers c ! i) \<noteq> VPNPeer.Address (Cluster.VPNPeers c ! j)"
    if "i < length (Cluster.VPNPeers c)" "j < length (Cluster.VPNPeers c)" "i \<noteq> j" for i j
    using less [of i j] less [of j i] that by (cases "i < j") (auto simp: not_less)
  then show ?thesis by (simp add: distinct_conv_nth)
qed

lemma GenerateVPNPeer_names:
  "GenerateVPNPeer k peerName c = Inr (c', None) \<Longrightarrow>
   map VPNPeer.Name (Cluster.VPNPeers c') = map VPNPeer.Name (Cluster.VPNPeers c) @ [peerName]"
  by (drule GenerateVPNPeer_okD) auto

lemma GenerateVPNPeers_names:
  "GenerateVPNPeers calls c = Some c' \<Longrightarrow>
   map VPNPeer.Name (Cluster.VPNPeers c') = map VPNPeer.Name (Cluster.VPNPeers c) @ map snd calls"
proof (induction calls arbitrary: c)
  case Nil
  then show ?case by simp
next
  case (Cons call rest)
  obtain k peerName where call: "call = (k, peerName)" by (cases call)
  from Cons.prems call obtain c1 where
    step: "GenerateVPNPeer k peerName c = Inr (c1, None)" and
    rest: "GenerateVPNPeers rest c1 = Some c'"
    by (auto split: sum.splits prod.splits option.splits)
  from Cons.IH [OF rest] GenerateVPNPeer_names [OF step] call show ?case by simp
qed

lemma NewCluster_names:
  assumes "NewCluster g clusterName vpnCIDR e a = Inr (Some c, None)"
  shows "map VPNPeer.Name (Cluster.VPNPeers c) = [''control-plane-ingress'']"
proof -
  from NewCluster_okD [OF assms] obtain c0 where
    "GenerateVPNPeer (GeneratePrivateKey g) ''control-plane-ingress'' c0 = Inr (c, None)"
    "Cluster.VPNPeers c0 = []"
    by fastforce
  from GenerateVPNPeer_names [OF this(1)] this(2) show ?thesis by simp
qed

lemma GenerateVPNPeers_demo:
  "GenerateVPNPeers [(Inr (demo_Key ''1''), ''worker-1'')] demo =
     Some (demo\<lparr>Cluster.VPNPeers := Cluster.VPNPeers demo @
            [\<lparr>VPNPeer.Name = ''worker-1'', VPNPeer.Address = ''10.0.0.2/32'',
              VPNPeer.PrivateKey = ''private-1'', VPNPeer.PublicKey = ''public-1''\<rparr>]\<rparr>)"
  by (simp add: GenerateVPNPeer_demo)

section \<open>Masks\<close>

lemma cidr_bytes_0: "cidr_bytes l 0 = replicate l 0"
  by (induction l) simp_all

lemma leading_ones_partial:
  assumes "n < 8"
  shows "NOT (drop_bit n (0xff :: byte)) \<noteq> 0xff \<and>
         leading_ones 8 (NOT (drop_bit n (0xff :: byte))) = (n, 0)"
proof -
  have "list_all (\<lambda>n. NOT (drop_bit n (0xff :: byte)) \<noteq> 0xff \<and>
          leading_ones 8 (NOT (drop_bit n (0xff :: byte))) = (n, 0)) [0..<8]"
    by code_simp
  with assms show ?thesis by (simp add: list_all_iff)
qed

lemma simpleMaskLength_cidr_bytes:
  "n \<le> 8 * l \<Longrightarrow> simpleMaskLength (cidr_bytes l n) = Some n"
proof (induction l arbitrary: n)
  case 0
  then show ?case by simp
next
  case (Suc l)
  show ?case
  proof (cases "8 \<le> n")
    case True
    with Suc.prems have "n - 8 \<le> 8 * l" by simp
    from Suc.IH [OF this] True show ?thesis by simp
  next
    case False
    then have "n < 8" by simp
    from leading_ones_partial [OF this] False show ?thesis
      by (simp add: cidr_bytes_0 list_all_iff)
  qed
qed

lemma simpleMaskLength_CIDRMask:
  "n \<le> 8 * l \<Longrightarrow> l = 4 \<or> l = 16 \<Longrightarrow> simpleMaskLength (CIDRMask n (8 * l)) = Some n"
  using simpleMaskLength_cidr_bytes [of n l]
  by (auto simp: CIDRMask_def IPv4len_def IPv6len_def)

lemma map2_AND_idem:
  "map2 (AND) (map2 (AND) xs m) m = map2 (AND) xs (m :: byte list)"
proof (induction xs arbitrary: m)
  case Nil
  then show ?case by simp
next
  case (Cons x xs)
  then show ?case by (cases m) (simp_all add: and.assoc)
qed

lemma IP_Mask_IPv4:
  "length m = 4 \<Longrightarrow> IP_Mask (IPv4 a b c d) m = map2 (AND) [a, b, c, d] m"
  by (simp add: IP_Mask_def Let_def IPv4len_def IPv6len_def IPv4_def v4InV6Prefix_def)

lemma IP_Mask_16:
  "length p = 16 \<Longrightarrow> length m = 16 \<Longrightarrow> IP_Mask p m = map2 (AND) p m"
  by (simp add: IP_Mask_def Let_def IPv4len_def IPv6len_def)

section \<open>Finding the slash\<close>

lemma IndexByteString_append:
  "list_all (\<lambda>c. c \<noteq> x) pre \<Longrightarrow> IndexByteString (pre @ x # post) x = Some (length pre)"
  by (induction pre) simp_all

lemma parseIPv4_no_dot:
  assumes "list_all (\<lambda>c. c \<noteq> CHR ''.'') s"
  shows "parseIPv4 s = []"
proof -
  have "parseIPv4_loop (Suc (Suc k)) 0 s = None" for k
  proof (cases "s = []")
    case True
    then show ?thesis by simp
  next
    case False
    obtain n c ok where d: "dtoi s = (n, c, ok)" by (cases "dtoi s")
    have "parseIPv4_loop (Suc k) (Suc 0) (drop c s) = None"
    proof (cases "drop c s = []")
      case True
      then show ?thesis by simp
    next
      case ne: False
      then have "hd (drop c s) \<in> set s"
        using hd_in_set [OF ne] set_drop_subset [of c s] by blast
      with assms have "hd (drop c s) \<noteq> CHR ''.''" by (auto simp: list_all_iff)
      with ne show ?thesis by simp
    qed
    with False d show ?thesis by simp
  qed
  from this [of 2] show ?thesis
    by (simp add: parseIPv4_def IPv4len_def numeral_eq_Suc)
qed

lemma ipv4_String_no_slash:
  "list_all (\<lambda>c. c \<noteq> CHR ''/'') (ipv4_String p)"
proof -
  have "list_all (\<lambda>c. c \<noteq> CHR ''/'') (itoa (uint (b :: byte)))" for b
    using itoa_digits [of "uint b"] isDigit_not_sep
    by (auto simp: list_all_iff)
  then show ?thesis by (simp add: ipv4_String_def)
qed

lemma dtoi_itoa_nat:
  "n \<le> 128 \<Longrightarrow> dtoi (itoa (int n)) = (int n, length (itoa (int n)), True)"
  using dtoi_itoa [of "int n" "[]"] by (simp add: big_def)

section \<open>Reading a rendered network\<close>

lemma length_4_ex: "length (p :: 'a list) = 4 \<Longrightarrow> \<exists>a b c d. p = [a, b, c, d]"
  by (auto simp: length_Suc_conv numeral_eq_Suc)

lemma ParseCIDR_render:
  assumes "list_all (\<lambda>c. c \<noteq> CHR ''/'') addr" and "n \<le> 128"
  shows "ParseCIDR (addr @ ''/'' @ itoa (int n)) =
           (let ip4 = parseIPv4 addr;
                iplen = (if ip4 = [] then IPv6len else IPv4len);
                ip = (if ip4 = [] then parseIPv6 addr else ip4)
            in if ip \<noteq> [] \<and> n \<le> 8 * iplen
               then Inr (ip, \<lparr>IP = IP_Mask ip (CIDRMask n (8 * iplen)),
                              Mask = CIDRMask n (8 * iplen)\<rparr>)
               else Inl (ParseError ''CIDR address'' (addr @ ''/'' @ itoa (int n))))"
proof -
  have i: "IndexByteString (addr @ ''/'' @ itoa (int n)) (CHR ''/'') = Some (length addr)"
    using IndexByteString_append [OF assms(1), of "itoa (int n)"] by simp
  show ?thesis
    unfolding ParseCIDR_def i
    by (simp add: dtoi_itoa_nat [OF assms(2)] Let_def)
qed

lemma ParseCIDR_masked:
  assumes "ParseCIDR s = Inr (ip, net)"
  shows "\<exists>p n. (length p = 4 \<or> length p = 16) \<and> n \<le> 8 * length p \<and> net = masked p n"
proof -
  from assms obtain i where i: "IndexByteString s (CHR ''/'') = Some i"
    by (auto simp: ParseCIDR_def split: option.splits)
  let ?addr = "take i s" and ?mask = "drop (i + 1) s"
  obtain n j ok where d: "dtoi ?mask = (n, j, ok)" by (cases "dtoi ?mask")
  show ?thesis
  proof (cases "parseIPv4 ?addr = []")
    case True
    with assms i d have n: "n \<le> 128" and ip6: "parseIPv6 ?addr \<noteq> []"
      and net: "net = \<lparr>IP = IP_Mask (parseIPv6 ?addr) (CIDRMask (nat n) 128),
                      Mask = CIDRMask (nat n) 128\<rparr>"
      by (auto simp: ParseCIDR_def Let_def IPv6len_def IPv4len_def split: if_splits)
    from ip6 length_parseIPv6 [of ?addr] have l: "length (parseIPv6 ?addr) = 16" by blast
    from n have m: "length (CIDRMask (nat n) 128) = 16"
      using length_CIDRMask [of "nat n" 16] by simp
    from net l m have "net = masked (parseIPv6 ?addr) (nat n)"
      by (simp add: masked_def IP_Mask_16)
    with l n show ?thesis by (intro exI [of _ "parseIPv6 ?addr"] exI [of _ "nat n"]) simp
  next
    case False
    with assms i d have n: "n \<le> 32"
      and net: "net = \<lparr>IP = IP_Mask (parseIPv4 ?addr) (CIDRMask (nat n) 32),
                      Mask = CIDRMask (nat n) 32\<rparr>"
      by (auto simp: ParseCIDR_def Let_def IPv6len_def IPv4len_def split: if_splits)
    from False parseIPv4_shape [of ?addr] obtain a b c d where
      ip4: "parseIPv4 ?addr = IPv4 a b c d" by blast
    from n have m: "length (CIDRMask (nat n) 32) = 4"
      using length_CIDRMask [of "nat n" 4] by simp
    from net ip4 m have "net = masked [a, b, c, d] (nat n)"
      by (simp add: masked_def IP_Mask_IPv4)
    with n show ?thesis by (intro exI [of _ "[a, b, c, d]"] exI [of _ "nat n"]) simp
  qed
qed

lemma masked_4:
  assumes "length p = 4" and "n \<le> 32"
  shows "ParseCIDR (IPNet_String (masked p n)) =
           Inr (IP_To16 (IP (masked p n)), masked p n)"
    and "canonical (masked p n) = masked p n"
proof -
  let ?m = "CIDRMask n 32"
  let ?x = "map2 (AND) p ?m"
  from assms(2) have m: "length ?m = 4" using length_CIDRMask [of n 4] by simp
  with assms(1) have x: "length ?x = 4" by simp
  from length_4_ex [OF x] obtain a b c d where abcd: "?x = [a, b, c, d]" by (elim exE)
  have net: "masked p n = \<lparr>IP = ?x, Mask = ?m\<rparr>" by (simp add: masked_def assms(1))
  from assms(1) m have nnm: "networkNumberAndMask \<lparr>IP = ?x, Mask = ?m\<rparr> = (?x, ?m)"
    by (auto simp: networkNumberAndMask_def IP_To4_def IPv4len_def IPv6len_def Let_def)
  from net nnm show "canonical (masked p n) = masked p n" by (simp add: canonical_def)
  from assms(2) have sml: "simpleMaskLength ?m = Some n"
    using simpleMaskLength_CIDRMask [of n 4] by simp
  from assms(1) m have ne: "?x \<noteq> []" "?m \<noteq> []" by auto
  have str: "IPNet_String (masked p n) = ipv4_String ?x @ ''/'' @ itoa (int n)"
    unfolding net IPNet_String_def nnm using ne sml x by (simp add: IP_String_4)
  have idem: "map2 (AND) ?x ?m = ?x" by (rule map2_AND_idem)
  have "ParseCIDR (ipv4_String ?x @ ''/'' @ itoa (int n)) =
          Inr (IPv4 a b c d, \<lparr>IP = ?x, Mask = ?m\<rparr>)"
    using assms(2) m idem
    by (subst ParseCIDR_render [OF ipv4_String_no_slash])
       (simp_all add: abcd parseIPv4_ipv4_String IPv4_def IPv4len_def IP_Mask_IPv4 [unfolded IPv4_def])
  moreover from x abcd have "IP_To16 ?x = IPv4 a b c d"
    by (simp add: IP_To16_def IPv4len_def)
  ultimately show "ParseCIDR (IPNet_String (masked p n)) =
           Inr (IP_To16 (IP (masked p n)), masked p n)"
    using str net by simp
qed

section \<open>Networks in 16 bytes\<close>

lemma IP_String_no_slash_16:
  assumes "length p = 16" and "IP_To4 p = []"
  shows "list_all (\<lambda>c. c \<noteq> CHR ''/'') (IP_String p)"
    and "list_all (\<lambda>c. c \<noteq> CHR ''.'') (IP_String p)"
proof -
  from IP_String_16 [OF assms] obtain e0 e1 where "IP_String p = print6 p e0 e1 0" by blast
  with print6_chars [of p e0 e1 0]
  show "list_all (\<lambda>c. c \<noteq> CHR ''/'') (IP_String p)"
    and "list_all (\<lambda>c. c \<noteq> CHR ''.'') (IP_String p)"
    by (simp_all add: list_all_iff)
qed

lemma masked_16_plain:
  assumes "length p = 16" and "n \<le> 128" and "IP_To4 (IP (masked p n)) = []"
  shows "ParseCIDR (IPNet_String (masked p n)) = Inr (IP (masked p n), masked p n)"
    and "canonical (masked p n) = masked p n"
proof -
  let ?m = "CIDRMask n 128"
  let ?x = "map2 (AND) p ?m"
  from assms(2) have m: "length ?m = 16" using length_CIDRMask [of n 16] by simp
  with assms(1) have x: "length ?x = 16" by simp
  have net: "masked p n = \<lparr>IP = ?x, Mask = ?m\<rparr>" by (simp add: masked_def assms(1))
  from assms(3) net have to4: "IP_To4 ?x = []" by simp
  from x m to4 have nnm: "networkNumberAndMask \<lparr>IP = ?x, Mask = ?m\<rparr> = (?x, ?m)"
    by (simp add: networkNumberAndMask_def IPv4len_def IPv6len_def Let_def)
  from net nnm show "canonical (masked p n) = masked p n" by (simp add: canonical_def)
  from assms(2) have sml: "simpleMaskLength ?m = Some n"
    using simpleMaskLength_CIDRMask [of n 16] by simp
  from assms(1) m have ne: "?x \<noteq> []" "?m \<noteq> []" by auto
  have str: "IPNet_String (masked p n) = IP_String ?x @ ''/'' @ itoa (int n)"
    unfolding net IPNet_String_def nnm using ne sml by simp
  have idem: "map2 (AND) ?x ?m = ?x" by (rule map2_AND_idem)
  have p4: "parseIPv4 (IP_String ?x) = []"
    by (rule parseIPv4_no_dot) (rule IP_String_no_slash_16 [OF x to4])
  have p6: "parseIPv6 (IP_String ?x) = ?x" by (rule parseIPv6_IP_String [OF x to4])
  have "ParseCIDR (IP_String ?x @ ''/'' @ itoa (int n)) = Inr (?x, \<lparr>IP = ?x, Mask = ?m\<rparr>)"
    using assms(2) m x ne idem
    by (subst ParseCIDR_render [OF IP_String_no_slash_16(1) [OF x to4]])
       (simp_all add: p4 p6 IPv6len_def IP_Mask_16)
  with str net show "ParseCIDR (IPNet_String (masked p n)) = Inr (IP (masked p n), masked p n)"
    by simp
qed

lemma cidr_bytes_nth_ff:
  "k < l \<Longrightarrow> cidr_bytes l n ! k = 0xff \<Longrightarrow> 8 * (k + 1) \<le> n"
proof (induction l arbitrary: n k)
  case 0
  then show ?case by simp
next
  case (Suc l)
  show ?case
  proof (cases "8 \<le> n")
    case True
    show ?thesis
    proof (cases k)
      case 0
      with True show ?thesis by simp
    next
      case (Suc k')
      with Suc.prems True have "k' < l" "cidr_bytes l (n - 8) ! k' = 0xff" by simp_all
      from Suc.IH [OF this] True Suc show ?thesis by simp
    qed
  next
    case False
    then have "n < 8" by simp
    from leading_ones_partial [OF this] False Suc.prems show ?thesis
      by (cases k) (simp_all add: cidr_bytes_0)
  qed
qed

lemma cidr_bytes_drop:
  "8 * k \<le> n \<Longrightarrow> drop k (cidr_bytes (k + l) n) = cidr_bytes l (n - 8 * k)"
proof (induction k arbitrary: n)
  case 0
  then show ?case by simp
next
  case (Suc k)
  then have "8 * k \<le> n - 8" "8 \<le> n" by simp_all
  from Suc.IH [OF this(1)] this(2) show ?case by simp
qed

lemma byte_and_ff: "(a :: byte) AND b = 0xff \<Longrightarrow> b = 0xff"
proof -
  assume "a AND b = 0xff"
  then have "a AND b = - 1" by simp
  then have "b = - 1" by (simp add: and_eq_minus_1_iff)
  then show ?thesis by simp
qed

lemma masked_16_mapped:
  assumes "length p = 16" and "n \<le> 128" and "IP_To4 (IP (masked p n)) \<noteq> []"
  shows "ParseCIDR (IPNet_String (masked p n)) =
           Inr (IP_To16 (IP (masked p n)), canonical (masked p n))"
    and "canonical (masked p n) = masked (drop 12 p) (n - 96)"
    and "96 \<le> n"
proof -
  let ?m = "CIDRMask n 128"
  let ?x = "map2 (AND) p ?m"
  from assms(2) have m: "length ?m = 16" using length_CIDRMask [of n 16] by simp
  with assms(1) have x: "length ?x = 16" by simp
  have net: "masked p n = \<lparr>IP = ?x, Mask = ?m\<rparr>" by (simp add: masked_def assms(1))
  from assms(3) net have to4: "IP_To4 ?x \<noteq> []" by simp
  with x have x11: "?x ! 11 = 0xff" and x4: "IP_To4 ?x = drop 12 ?x"
    by (auto simp: IP_To4_def IPv4len_def IPv6len_def split: if_splits)
  from assms(1) m have "?x ! 11 = p ! 11 AND ?m ! 11" by simp
  with x11 have "?m ! 11 = 0xff" using byte_and_ff by metis
  with assms(2) have "cidr_bytes 16 n ! 11 = 0xff"
    by (simp add: CIDRMask_def IPv4len_def IPv6len_def)
  from cidr_bytes_nth_ff [OF _ this] show n96: "96 \<le> n" by simp
  let ?m4 = "CIDRMask (n - 96) 32"
  from assms(2) n96 have n32: "n - 96 \<le> 32" by simp
  then have "\<not> 32 < n - 96" by simp
  with assms(2) n96 have m4: "drop 12 ?m = ?m4"
    using cidr_bytes_drop [of 12 n 4]
    by (simp add: CIDRMask_def IPv4len_def IPv6len_def)
  have x4': "drop 12 ?x = map2 (AND) (drop 12 p) ?m4"
    by (simp add: drop_map drop_zip m4)
  from x have lx4: "length (drop 12 ?x) = 4" by simp
  from x m to4 x4 lx4 have nnm: "networkNumberAndMask \<lparr>IP = ?x, Mask = ?m\<rparr> = (drop 12 ?x, ?m4)"
    by (simp add: networkNumberAndMask_def IPv4len_def IPv6len_def Let_def m4)
  from assms(1) have lp: "length (drop 12 p) = 4" by simp
  let ?net4 = "masked (drop 12 p) (n - 96)"
  have net4: "?net4 = \<lparr>IP = drop 12 ?x, Mask = ?m4\<rparr>"
    by (simp add: masked_def assms(1) x4')
  from net nnm net4 show can: "canonical (masked p n) = ?net4"
    by (simp add: canonical_def)
  note can4 = masked_4(2) [OF lp n32]
  have "fst (networkNumberAndMask ?net4) = drop 12 ?x \<and>
        snd (networkNumberAndMask ?net4) = ?m4"
    using can4 unfolding canonical_def net4 by simp
  then have nnm4: "networkNumberAndMask ?net4 = (drop 12 ?x, ?m4)"
    by (simp add: prod_eq_iff)
  have str: "IPNet_String (masked p n) = IPNet_String ?net4"
    unfolding IPNet_String_def nnm4 unfolding net nnm ..
  have x16: "IP_To16 ?x = ?x"
    using x by (simp add: IP_To16_def IPv4len_def IPv6len_def)
  have "IP_To16 (drop 12 ?x) = ?x"
  proof -
    from IP_To4_prefix [OF x to4] x4 have "?x = v4InV6Prefix @ drop 12 ?x" by simp
    moreover from length_4_ex [OF lx4] obtain a b c d where "drop 12 ?x = [a, b, c, d]"
      by (elim exE)
    ultimately show ?thesis by (simp add: IP_To16_def IPv4len_def IPv4_def)
  qed
  then have "IP_To16 (IP ?net4) = IP_To16 (IP (masked p n))"
    unfolding net4 unfolding net using x16 by simp
  with masked_4(1) [OF lp n32] str can
  show "ParseCIDR (IPNet_String (masked p n)) =
           Inr (IP_To16 (IP (masked p n)), canonical (masked p n))"
    by simp
qed

section \<open>Export and import\<close>

lemma newVPNCIDR_round_trip:
  assumes "ParseCIDR s = Inr (ip, net)"
  shows "newVPNCIDRFromv1alpha1 (IPNet_String net) = Some (canonical net)"
    and "length (IP net) = 4 \<or> IP_To4 (IP net) = [] \<Longrightarrow> canonical net = net"
proof -
  from ParseCIDR_masked [OF assms] obtain p n where
    p: "length p = 4 \<or> length p = 16" and n: "n \<le> 8 * length p" and net: "net = masked p n"
    by blast
  have "newVPNCIDRFromv1alpha1 (IPNet_String net) = Some (canonical net) \<and>
        (length (IP net) = 4 \<or> IP_To4 (IP net) = [] \<longrightarrow> canonical net = net)"
  proof (cases "length p = 4")
    case True
    with n have "n \<le> 32" by simp
    from masked_4 [OF True this] net show ?thesis
      by (simp add: newVPNCIDRFromv1alpha1_def)
  next
    case False
    with p n have l: "length p = 16" and n128: "n \<le> 128" by auto
    show ?thesis
    proof (cases "IP_To4 (IP (masked p n)) = []")
      case True
      from masked_16_plain [OF l n128 True] net show ?thesis
        by (simp add: newVPNCIDRFromv1alpha1_def)
    next
      case mapped: False
      from n128 have "length (CIDRMask n 128) = 16"
        using length_CIDRMask [of n 16] by simp
      with l have "length (IP (masked p n)) \<noteq> 4"
        by (simp add: masked_def)
      with masked_16_mapped(1) [OF l n128 mapped] mapped net show ?thesis
        by (simp add: newVPNCIDRFromv1alpha1_def)
    qed
  qed
  then show "newVPNCIDRFromv1alpha1 (IPNet_String net) = Some (canonical net)"
    and "length (IP net) = 4 \<or> IP_To4 (IP net) = [] \<Longrightarrow> canonical net = net"
    by blast+
qed

lemma Certificate_round_trip: "NewCertificateFromv1alpha1 (Certificate_Export x) = x"
  by (simp add: NewCertificateFromv1alpha1_def Certificate_Export_def)

lemma VPNPeers_round_trip: "newVPNPeersFromv1alpha1 (VPNPeerList_Export peers) = peers"
  by (induction peers)
     (simp_all add: newVPNPeersFromv1alpha1_def VPNPeerList_Export_def
        newVPNPeerFromv1alpha1_def VPNPeer_Export_def)

lemma Export_import:
  assumes "Cluster.CertificateAuthorities c = Some cas" and "Cluster.APIServer c = Some api"
    and "Cluster.EtcdServer c = Some etcd"
  shows "\<exists>v. Export c = Inr v \<and>
           NewClusterFromv1alpha1 v =
             Inr (Some (c\<lparr>Cluster.VPNCIDR :=
                          newVPNCIDRFromv1alpha1 (IPNet_ptr_String (Cluster.VPNCIDR c))\<rparr>),
                  None)"
  using assms
  by (cases c)
     (simp add: Export_def NewClusterFromv1alpha1_def Let_def Certificate_round_trip
        VPNPeers_round_trip)

lemma NewCluster_fields:
  assumes "NewCluster g clusterName vpnCIDR e a = Inr (Some c, None)"
  shows "\<exists>ip net cas api etcd.
           ParseCIDR vpnCIDR = Inr (ip, net) \<and> Cluster.VPNCIDR c = Some net \<and>
           Cluster.CertificateAuthorities c = Some cas \<and> Cluster.APIServer c = Some api \<and>
           Cluster.EtcdServer c = Some etcd"
proof -
  from NewCluster_okD [OF assms] obtain ip net cas etcd api where
    parse: "ParseCIDR vpnCIDR = Inr (ip, net)"
    and gen: "GenerateVPNPeer (GeneratePrivateKey g) ''control-plane-ingress''
       \<lparr>Cluster.Name = clusterName,
        Cluster.CertificateAuthorities = Some cas,
        Cluster.EtcdServer = Some etcd,
        Cluster.APIServer = Some api,
        Cluster.StorageClientEndpoints = [],
        Cluster.StoragePeerEndpoints = [],
        Cluster.VPNCIDR = Some net,
        Cluster.VPNPeers = []\<rparr> = Inr (c, None)"
    by blast
  from GenerateVPNPeer_okD [OF gen] parse show ?thesis by auto
qed

section \<open>Address allocation on an IPv6 network with a leading zero byte\<close>

text \<open>
  Claim C1. For every cluster with a valid VPN CIDR and \<open>n\<close> peers, \<open>requestVPNIP\<close>
  returns the network address plus \<open>n + 1\<close> whenever that address is in the CIDR, and
  fails with the exhaustion error, which names the CIDR, otherwise.

  The code does not do this on an IPv6 network whose first byte is zero, unless its
  address is an IPv4-mapped one.
  \<open>big.Int.Bytes\<close> drops the leading zero bytes, so the slice is neither 16 bytes long
  nor, after \<open>[2:]\<close>, an address at all, and \<open>Contains\<close> refuses it. On
  \<open>64:ff9b::/96\<close> with no peers the address \<open>64:ff9b::1\<close> is the network address plus
  one and is in the CIDR, and the call reports exhaustion; \<open>NewCluster\<close> on that CIDR
  fails with it.
\<close>

theorem requestVPNIP_leading_zero_byte:
  "ParseCIDR ''64:ff9b::/96'' = Inr (IP net_nat64, net_nat64) \<and>
   requestVPNIP (bare_Cluster (Some net_nat64) 0) =
     Inr ([], Some (NotEnoughIPAddresses ''64:ff9b::/96'')) \<and>
   SetBytes [0, 0x64, 0xff, 0x9b, 0, 0, 0, 0, 0, 0, 0, 0, 0, 0, 0, 1] = SetBytes (IP net_nat64) + 1 \<and>
   IPNet_Contains net_nat64 [0, 0x64, 0xff, 0x9b, 0, 0, 0, 0, 0, 0, 0, 0, 0, 0, 0, 1] \<and>
   NewCluster demo_generators ''demo'' ''64:ff9b::/96'' [] [] =
     Inr (None, Some (NotEnoughIPAddresses ''64:ff9b::/96''))"
  by code_simp

text \<open>With fewer than two bytes left, as on \<open>::/64\<close>, the slice expression panics.\<close>

lemma requestVPNIP_short_network_panics:
  "ParseCIDR ''::/64'' = Inr (replicate 16 0, \<lparr>IP = replicate 16 0, Mask = CIDRMask 64 128\<rparr>) \<and>
   requestVPNIP (bare_Cluster (Some \<lparr>IP = replicate 16 0, Mask = CIDRMask 64 128\<rparr>) 0) =
     Inl SliceBoundsOutOfRange"
  by code_simp

section \<open>Construction fails as a whole\<close>

text \<open>
  Claim C4. Whenever \<open>NewCluster\<close> returns a non-nil error, the cluster it returns is
  nil. It returns an error, and so no cluster, for every CIDR string that
  \<open>net.ParseCIDR\<close> refuses, for every failure of the certificate generation and for
  every failure of the first peer.
\<close>

theorem NewCluster_error_returns_nil:
  "(\<forall>c err. NewCluster g clusterName vpnCIDR e a = Inr (c, Some err) \<longrightarrow> c = None) \<and>
   (\<forall>perr. ParseCIDR vpnCIDR = Inl perr \<longrightarrow>
      NewCluster g clusterName vpnCIDR e a = Inr (None, Some (CIDRParseError perr))) \<and>
   (\<forall>ip net res err.
      ParseCIDR vpnCIDR = Inr (ip, net) \<and>
      generateCertificates g e a
        \<lparr>Cluster.Name = clusterName,
         Cluster.CertificateAuthorities = None,
         Cluster.EtcdServer = None,
         Cluster.APIServer = None,
         Cluster.StorageClientEndpoints = [],
         Cluster.StoragePeerEndpoints = [],
         Cluster.VPNCIDR = Some net,
         Cluster.VPNPeers = []\<rparr> = (res, Some err) \<longrightarrow>
      NewCluster g clusterName vpnCIDR e a = Inr (None, Some err)) \<and>
   (\<forall>ip net res res' err.
      ParseCIDR vpnCIDR = Inr (ip, net) \<and>
      generateCertificates g e a
        \<lparr>Cluster.Name = clusterName,
         Cluster.CertificateAuthorities = None,
         Cluster.EtcdServer = None,
         Cluster.APIServer = None,
         Cluster.StorageClientEndpoints = [],
         Cluster.StoragePeerEndpoints = [],
         Cluster.VPNCIDR = Some net,
         Cluster.VPNPeers = []\<rparr> = (res, None) \<and>
      GenerateVPNPeer (GeneratePrivateKey g) ''control-plane-ingress'' res = Inr (res', Some err) \<longrightarrow>
      NewCluster g clusterName vpnCIDR e a = Inr (None, Some err))"
  by (auto simp: NewCluster_def Let_def split: sum.splits prod.splits option.splits)

theorem NewCluster_error_returns_nil_witness:
  "ParseCIDR ''10.0.0.0/33'' = Inl (ParseError ''CIDR address'' ''10.0.0.0/33'') \<and>
   NewCluster demo_generators ''demo'' ''10.0.0.0/33'' [] [] =
     Inr (None, Some (CIDRParseError (ParseError ''CIDR address'' ''10.0.0.0/33'')))"
  using NewCluster_error_returns_nil [of demo_generators "''demo''" "''10.0.0.0/33''" "[]" "[]"]
    ParseCIDR_malformed
  by blast

section \<open>The two scenarios\<close>

text \<open>
  Claim C5. A successful \<open>NewCluster("demo", "10.0.0.0/16", ...)\<close> yields a cluster with
  exactly one peer, named \<open>control-plane-ingress\<close>, with address \<open>10.0.0.1/32\<close>; a
  successful \<open>GenerateVPNPeer("worker-1")\<close> on it appends a peer with address
  \<open>10.0.0.2/32\<close>.
\<close>

theorem demo_scenario:
  assumes "NewCluster g ''demo'' ''10.0.0.0/16'' e a = Inr (Some c, None)"
  shows "(\<exists>peer. Cluster.VPNPeers c = [peer] \<and>
            VPNPeer.Name peer = ''control-plane-ingress'' \<and>
            VPNPeer.Address peer = ''10.0.0.1/32'') \<and>
         (\<forall>k c'. GenerateVPNPeer k ''worker-1'' c = Inr (c', None) \<longrightarrow>
            (\<exists>peer. Cluster.VPNPeers c' = Cluster.VPNPeers c @ [peer] \<and>
               VPNPeer.Name peer = ''worker-1'' \<and>
               VPNPeer.Address peer = ''10.0.0.2/32''))"
proof -
  from NewCluster_okD [OF assms] obtain cas etcd api where
    first: "GenerateVPNPeer (GeneratePrivateKey g) ''control-plane-ingress''
       \<lparr>Cluster.Name = ''demo'',
        Cluster.CertificateAuthorities = Some cas,
        Cluster.EtcdServer = Some etcd,
        Cluster.APIServer = Some api,
        Cluster.StorageClientEndpoints = [],
        Cluster.StoragePeerEndpoints = [],
        Cluster.VPNCIDR = Some \<lparr>IP = [10, 0, 0, 0], Mask = [255, 255, 0, 0]\<rparr>,
        Cluster.VPNPeers = []\<rparr> = Inr (c, None)"
    by (auto simp: ParseCIDR_10_16)
  from GenerateVPNPeer_okD [OF first] obtain s and key :: Key where
    s: "requestVPNIP \<lparr>Cluster.Name = ''demo'',
        Cluster.CertificateAuthorities = Some cas,
        Cluster.EtcdServer = Some etcd,
        Cluster.APIServer = Some api,
        Cluster.StorageClientEndpoints = [],
        Cluster.StoragePeerEndpoints = [],
        Cluster.VPNCIDR = Some \<lparr>IP = [10, 0, 0, 0], Mask = [255, 255, 0, 0]\<rparr>,
        Cluster.VPNPeers = []\<rparr> = Inr (s, None)"
    and c: "Cluster.VPNPeers c = [\<lparr>VPNPeer.Name = ''control-plane-ingress'',
                VPNPeer.Address = peerAddress s,
                VPNPeer.PrivateKey = Key_String key,
                VPNPeer.PublicKey = PublicKey_String key\<rparr>]"
    and cidr: "Cluster.VPNCIDR c = Some \<lparr>IP = [10, 0, 0, 0], Mask = [255, 255, 0, 0]\<rparr>"
    by auto
  from s have "s = ''10.0.0.1''"
    by (subst (asm) requestVPNIP_bare) (simp add: requestVPNIP_10_16_first)
  with c have one: "\<exists>peer. Cluster.VPNPeers c = [peer] \<and>
            VPNPeer.Name peer = ''control-plane-ingress'' \<and>
            VPNPeer.Address peer = ''10.0.0.1/32''"
    by (simp add: peerAddress_10_0_0_1)
  have two: "\<exists>peer. Cluster.VPNPeers c' = Cluster.VPNPeers c @ [peer] \<and>
               VPNPeer.Name peer = ''worker-1'' \<and>
               VPNPeer.Address peer = ''10.0.0.2/32''"
    if "GenerateVPNPeer k ''worker-1'' c = Inr (c', None)" for k c'
  proof -
    from GenerateVPNPeer_okD [OF that] obtain s' and key' :: Key where
      s': "requestVPNIP c = Inr (s', None)"
      and c': "c' = c\<lparr>Cluster.VPNPeers := Cluster.VPNPeers c @
              [\<lparr>VPNPeer.Name = ''worker-1'', VPNPeer.Address = peerAddress s',
                VPNPeer.PrivateKey = Key_String key',
                VPNPeer.PublicKey = PublicKey_String key'\<rparr>]\<rparr>"
      by auto
    from s' have "s' = ''10.0.0.2''"
      by (subst (asm) requestVPNIP_bare) (simp add: cidr c requestVPNIP_10_16_second)
    with c' show ?thesis
      by (simp add: peerAddress_10_0_0_2)
  qed
  from one two show ?thesis by blast
qed

theorem demo_scenario_witness:
  "NewCluster demo_generators ''demo'' ''10.0.0.0/16'' [] [] = Inr (Some demo, None) \<and>
   map VPNPeer.Name (Cluster.VPNPeers demo) = [''control-plane-ingress''] \<and>
   map VPNPeer.Address (Cluster.VPNPeers demo) = [''10.0.0.1/32''] \<and>
   (\<exists>c'. GenerateVPNPeer (Inr (demo_Key ''1'')) ''worker-1'' demo = Inr (c', None) \<and>
      map VPNPeer.Address (Cluster.VPNPeers c') = [''10.0.0.1/32'', ''10.0.0.2/32''])"
  using demo_scenario [OF NewCluster_demo] NewCluster_demo GenerateVPNPeer_demo
  by auto

text \<open>
  Claim C6. With CIDR \<open>10.0.0.0/31\<close>, \<open>NewCluster\<close> succeeds when its generators do (the
  first peer gets \<open>10.0.0.1\<close>, which is in the CIDR), and every later \<open>GenerateVPNPeer\<close>
  on the cluster fails with the exhaustion error and leaves the cluster, with its one
  peer, as it was.
\<close>

theorem exhaustion_scenario:
  assumes "newCertificateAuthorities g = Inr cas" and "newEtcdServer g e = Inr etcd"
    and "newKubeAPIServer g a = Inr api" and "GeneratePrivateKey g = Inr key"
  shows "\<exists>c peer.
           NewCluster g clusterName ''10.0.0.0/31'' e a = Inr (Some c, None) \<and>
           Cluster.VPNPeers c = [peer] \<and> VPNPeer.Address peer = ''10.0.0.1/32'' \<and>
           (\<forall>k peerName.
              GenerateVPNPeer k peerName c =
                Inr (c, Some (NotEnoughIPAddresses ''10.0.0.0/31'')))"
proof -
  let ?net = "\<lparr>IP = [10, 0, 0, 0], Mask = [255, 255, 255, 254]\<rparr>"
  let ?res = "\<lparr>Cluster.Name = clusterName,
        Cluster.CertificateAuthorities = Some cas,
        Cluster.EtcdServer = Some etcd,
        Cluster.APIServer = Some api,
        Cluster.StorageClientEndpoints = [],
        Cluster.StoragePeerEndpoints = [],
        Cluster.VPNCIDR = Some ?net,
        Cluster.VPNPeers = []\<rparr>"
  let ?peer = "\<lparr>VPNPeer.Name = ''control-plane-ingress'', VPNPeer.Address = ''10.0.0.1/32'',
                VPNPeer.PrivateKey = Key_String key,
                VPNPeer.PublicKey = PublicKey_String key\<rparr>"
  let ?c = "?res\<lparr>Cluster.VPNPeers := [?peer]\<rparr>"
  have "requestVPNIP ?res = Inr (''10.0.0.1'', None)"
    by (subst requestVPNIP_bare) (simp add: requestVPNIP_10_31_first)
  from GenerateVPNPeer_ok [OF this, of key "''control-plane-ingress''"]
  have "GenerateVPNPeer (GeneratePrivateKey g) ''control-plane-ingress'' ?res = Inr (?c, None)"
    by (simp add: assms(4) peerAddress_10_0_0_1)
  from NewCluster_okI [OF ParseCIDR_10_31 assms(1-3) this]
  have new: "NewCluster g clusterName ''10.0.0.0/31'' e a = Inr (Some ?c, None)" .
  have "requestVPNIP ?c = Inr ([], Some (NotEnoughIPAddresses ''10.0.0.0/31''))"
    by (subst requestVPNIP_bare) (simp add: requestVPNIP_10_31_second)
  then have "GenerateVPNPeer k peerName ?c =
      Inr (?c, Some (NotEnoughIPAddresses ''10.0.0.0/31''))" for k peerName
    by (rule GenerateVPNPeer_exhausted)
  with new show ?thesis
    by (intro exI [of _ ?c] exI [of _ ?peer]) simp
qed

theorem exhaustion_scenario_witness:
  "\<exists>c. NewCluster demo_generators ''demo'' ''10.0.0.0/31'' [] [] = Inr (Some c, None) \<and>
       length (Cluster.VPNPeers c) = 1 \<and>
       GenerateVPNPeer (Inr (demo_Key ''1'')) ''worker-1'' c =
         Inr (c, Some (NotEnoughIPAddresses ''10.0.0.0/31''))"
proof -
  have "newCertificateAuthorities demo_generators = Inr demo_CertificateAuthorities"
    and "newEtcdServer demo_generators [] = Inr (demo_EtcdServer [])"
    and "newKubeAPIServer demo_generators [] = Inr (demo_KubeAPIServer [])"
    and "GeneratePrivateKey demo_generators = Inr (demo_Key ''0'')"
    by (simp_all add: demo_generators_def)
  from exhaustion_scenario [OF this, of "''demo''"] show ?thesis
    by auto
qed

section \<open>Serialisation\<close>

text \<open>
  Claim C7, as amended. When the \<open>Specs\<close> of every member returns, with a document or
  with an error, \<open>Map.Specs\<close> returns the concatenation of the members' documents, in
  the order the loop visits them, each after the separator line \<open>---\<close>; a member whose
  \<open>Specs\<close> returns an error adds nothing, and the error returned is nil. When the
  \<open>Specs\<close> of some member panics, \<open>Map.Specs\<close> panics with the nil pointer dereference
  and returns nothing. The \<open>Specs\<close> of a member panics exactly when the scheme
  registration succeeds and the member has a nil \<open>CertificateAuthorities\<close>, \<open>APIServer\<close>
  or \<open>EtcdServer\<close>, which \<open>Export\<close> dereferences.

  As stated, the claim says that for every cluster map a member whose serialisation
  fails is skipped and does not abort the batch. A member with a nil
  \<open>CertificateAuthorities\<close> makes \<open>Export\<close> panic, and the documents of the other members
  are lost with it.
\<close>

theorem Map_Specs_concatenates:
  "Map_Specs addToScheme encode clusterMap =
     (if list_all (\<lambda>(name, cluster). \<not> isl (Cluster_Specs addToScheme encode cluster)) clusterMap
      then Inr (concat (map (\<lambda>(name, cluster). document addToScheme encode cluster) clusterMap),
                None)
      else Inl NilPointerDereference) \<and>
   (isl (Cluster_Specs addToScheme encode c) \<longleftrightarrow>
      addToScheme = None \<and>
      (Cluster.CertificateAuthorities c = None \<or> Cluster.APIServer c = None \<or>
       Cluster.EtcdServer c = None))"
proof (cases "list_all (\<lambda>(name, cluster). \<not> isl (Cluster_Specs addToScheme encode cluster)) clusterMap")
  case True
  from Map_Specs_range_concat [OF True, of "[]"] True Cluster_Specs_panics [of addToScheme encode c]
  show ?thesis by (simp add: Map_Specs_def)
next
  case False
  from Map_Specs_range_panic [OF False, of "[]"] False Cluster_Specs_panics [of addToScheme encode c]
  show ?thesis by (simp add: Map_Specs_def)
qed

theorem Map_Specs_concatenates_witness:
  "Map_Specs None demo_encode [(''bad'', demo\<lparr>Cluster.Name := ''bad''\<rparr>), (''demo'', demo)] =
     Inr (''---'' @ [CHR 0x0A] @ ''name: demo'' @ [CHR 0x0A], None) \<and>
   Cluster_Specs None demo_encode (demo\<lparr>Cluster.Name := ''bad''\<rparr>) =
     Inr ([], Some (CouldNotEncodeCluster ''bad''))"
proof -
  have h: "list_all (\<lambda>(name, cluster). \<not> isl (Cluster_Specs None demo_encode cluster))
     [(''bad'', demo\<lparr>Cluster.Name := ''bad''\<rparr>), (''demo'', demo)]"
    by code_simp
  have d: "concat (map (\<lambda>(name, cluster). document None demo_encode cluster)
             [(''bad'', demo\<lparr>Cluster.Name := ''bad''\<rparr>), (''demo'', demo)]) =
           ''---'' @ [CHR 0x0A] @ ''name: demo'' @ [CHR 0x0A]"
    by code_simp
  from Map_Specs_concatenates [of None demo_encode
      "[(''bad'', demo\<lparr>Cluster.Name := ''bad''\<rparr>), (''demo'', demo)]" demo] h d Cluster_Specs_bad
  show ?thesis by simp
qed

theorem Map_Specs_concatenates_counterexample:
  "Cluster_Specs None demo_encode demo = Inr (''name: demo'' @ [CHR 0x0A], None) \<and>
   Cluster_Specs None demo_encode (demo\<lparr>Cluster.CertificateAuthorities := None\<rparr>) =
     Inl NilPointerDereference \<and>
   Map_Specs None demo_encode
     [(''demo'', demo), (''broken'', demo\<lparr>Cluster.CertificateAuthorities := None\<rparr>)] =
     Inl NilPointerDereference"
  by code_simp

text \<open>
  Claim C8, as amended. \<open>Cluster.Specs\<close> returns a non-nil error in exactly two cases,
  and the string it returns is then empty: the scheme registration fails, and the
  error is that of the registration, returned as it is; or the registration succeeds,
  \<open>Export\<close> returns and the encoder fails, and the error is the encoding error that names
  the cluster. So every failure of the encoding itself surfaces as the encoding error
  naming the cluster.

  As stated, the claim says every error names the cluster. It does not when
  \<open>AddToScheme\<close> fails: the method returns that error unchanged.
\<close>

theorem Cluster_Specs_error:
  "Cluster_Specs addToScheme encode c = Inr (s, Some err) \<longleftrightarrow>
     s = [] \<and>
     (addToScheme = Some err \<or>
      addToScheme = None \<and> err = CouldNotEncodeCluster (Cluster.Name c) \<and>
      (\<exists>clusterObject. Export c = Inr clusterObject \<and> isl (encode clusterObject)))"
  by (auto simp: Cluster_Specs_def isl_def split: option.splits sum.splits)

theorem Cluster_Specs_error_witness:
  "Cluster_Specs None demo_encode (demo\<lparr>Cluster.Name := ''bad''\<rparr>) =
     Inr ([], Some (CouldNotEncodeCluster ''bad'')) \<and>
   (\<exists>clusterObject. Export (demo\<lparr>Cluster.Name := ''bad''\<rparr>) = Inr clusterObject \<and>
      isl (demo_encode clusterObject))"
proof -
  have "\<exists>clusterObject. Export (demo\<lparr>Cluster.Name := ''bad''\<rparr>) = Inr clusterObject \<and>
      isl (demo_encode clusterObject)"
    using Cluster_Specs_error [of None demo_encode "demo\<lparr>Cluster.Name := ''bad''\<rparr>" "[]"
        "CouldNotEncodeCluster ''bad''"] Cluster_Specs_bad
    by simp
  with Cluster_Specs_bad show ?thesis by simp
qed

theorem Cluster_Specs_error_counterexample:
  "Cluster_Specs (Some (ExternalError ''no kind is registered'')) demo_encode demo =
     Inr ([], Some (ExternalError ''no kind is registered'')) \<and>
   ExternalError ''no kind is registered'' \<noteq> CouldNotEncodeCluster (Cluster.Name demo)"
  by (simp add: Cluster_Specs_def)

section \<open>Lookup and frame\<close>

text \<open>
  Claim C9. If some peer of the cluster has the name, \<open>Cluster.VPNPeer(name)\<close> returns the
  first peer with that name in list order and a nil error; if none has it, it returns
  nil and the not-found error. The cluster is unchanged in both cases.
\<close>

theorem Cluster_VPNPeer_lookup:
  "(name \<in> VPNPeer.Name ` set (Cluster.VPNPeers c) \<longrightarrow>
      (\<exists>peer before after.
         Cluster_VPNPeer c name = (c, Some peer, None) \<and> VPNPeer.Name peer = name \<and>
         Cluster.VPNPeers c = before @ peer # after \<and>
         name \<notin> VPNPeer.Name ` set before)) \<and>
   (name \<notin> VPNPeer.Name ` set (Cluster.VPNPeers c) \<longrightarrow>
      Cluster_VPNPeer c name = (c, None, Some (VPNPeerNotFound name)))"
proof (intro conjI impI)
  assume "name \<in> VPNPeer.Name ` set (Cluster.VPNPeers c)"
  then have "\<exists>peer. find (\<lambda>peer. VPNPeer.Name peer = name) (Cluster.VPNPeers c) = Some peer"
    by (cases "find (\<lambda>peer. VPNPeer.Name peer = name) (Cluster.VPNPeers c)")
       (auto simp: find_None_iff)
  then obtain peer where
    found: "find (\<lambda>peer. VPNPeer.Name peer = name) (Cluster.VPNPeers c) = Some peer" ..
  then obtain i where i: "i < length (Cluster.VPNPeers c)"
    "VPNPeer.Name (Cluster.VPNPeers c ! i) = name" "peer = Cluster.VPNPeers c ! i"
    "\<forall>j<i. VPNPeer.Name (Cluster.VPNPeers c ! j) \<noteq> name"
    by (auto simp: find_Some_iff)
  have split: "Cluster.VPNPeers c = take i (Cluster.VPNPeers c) @ peer # drop (Suc i) (Cluster.VPNPeers c)"
    using i(1,3) by (simp add: id_take_nth_drop)
  have "name \<notin> VPNPeer.Name ` set (take i (Cluster.VPNPeers c))"
    using i(1,4) by (force simp: in_set_conv_nth)
  with found i(2,3) split
  show "\<exists>peer before after.
         Cluster_VPNPeer c name = (c, Some peer, None) \<and> VPNPeer.Name peer = name \<and>
         Cluster.VPNPeers c = before @ peer # after \<and>
         name \<notin> VPNPeer.Name ` set before"
    unfolding Cluster_VPNPeer_def VPNPeer_range_find by (metis option.simps(5))
next
  assume "name \<notin> VPNPeer.Name ` set (Cluster.VPNPeers c)"
  then have "find (\<lambda>peer. VPNPeer.Name peer = name) (Cluster.VPNPeers c) = None"
    by (auto simp: find_None_iff)
  then show "Cluster_VPNPeer c name = (c, None, Some (VPNPeerNotFound name))"
    by (simp add: Cluster_VPNPeer_def VPNPeer_range_find)
qed

theorem Cluster_VPNPeer_lookup_witness:
  "(\<exists>peer. Cluster_VPNPeer demo ''control-plane-ingress'' = (demo, Some peer, None) \<and>
      VPNPeer.Name peer = ''control-plane-ingress'') \<and>
   Cluster_VPNPeer demo ''worker-1'' = (demo, None, Some (VPNPeerNotFound ''worker-1''))"
proof -
  have names: "VPNPeer.Name ` set (Cluster.VPNPeers demo) = {''control-plane-ingress''}"
    by (simp add: demo_def demo_Cluster_def)
  from Cluster_VPNPeer_lookup [of "''control-plane-ingress''" demo]
       Cluster_VPNPeer_lookup [of "''worker-1''" demo] names
  show ?thesis by auto
qed

text \<open>
  Claim C10. \<open>GenerateVPNPeer\<close> changes the peer list only. On success it appends exactly
  one peer, with the name it was given, after the peers that were there, and leaves
  the name, the certificate authorities, the etcd and API servers, the storage
  endpoints and the CIDR as they were. On failure, which is the exhaustion of the
  CIDR or the error of the key generation, the whole cluster is as it was.
\<close>

theorem GenerateVPNPeer_frame_effect:
  assumes "GenerateVPNPeer k peerName c = Inr (c', r)"
  shows "(r = None \<longrightarrow>
            (\<exists>peer. Cluster.VPNPeers c' = Cluster.VPNPeers c @ [peer] \<and>
               VPNPeer.Name peer = peerName)) \<and>
         (\<forall>err. r = Some err \<longrightarrow>
            Cluster.VPNPeers c' = Cluster.VPNPeers c \<and> c' = c \<and>
            (k = Inl err \<or> err = NotEnoughIPAddresses (IPNet_ptr_String (Cluster.VPNCIDR c)))) \<and>
         Cluster.Name c' = Cluster.Name c \<and>
         Cluster.CertificateAuthorities c' = Cluster.CertificateAuthorities c \<and>
         Cluster.EtcdServer c' = Cluster.EtcdServer c \<and>
         Cluster.APIServer c' = Cluster.APIServer c \<and>
         Cluster.StorageClientEndpoints c' = Cluster.StorageClientEndpoints c \<and>
         Cluster.StoragePeerEndpoints c' = Cluster.StoragePeerEndpoints c \<and>
         Cluster.VPNCIDR c' = Cluster.VPNCIDR c"
  using assms
  by (auto simp: GenerateVPNPeer_def requestVPNIP_def IPNet_ptr_String_def Let_def
           split: sum.splits prod.splits option.splits if_splits)

theorem GenerateVPNPeer_frame_effect_witness:
  "\<exists>c'. GenerateVPNPeer (Inr (demo_Key ''1'')) ''worker-1'' demo = Inr (c', None) \<and>
      length (Cluster.VPNPeers c') = 2 \<and> take 1 (Cluster.VPNPeers c') = Cluster.VPNPeers demo \<and>
      Cluster.Name c' = ''demo'' \<and> Cluster.VPNCIDR c' = Some net_10_16"
proof -
  have name: "Cluster.Name demo = ''demo''" and cidr: "Cluster.VPNCIDR demo = Some net_10_16"
    and peers: "length (Cluster.VPNPeers demo) = 1"
    by (simp_all add: demo_def demo_Cluster_def)
  from GenerateVPNPeer_frame_effect [OF GenerateVPNPeer_demo] name cidr peers
  show ?thesis
    by (auto simp: GenerateVPNPeer_demo)
qed

section \<open>The round trip through the versioned cluster\<close>

text \<open>
  Claim C2, as amended. For every cluster \<open>c\<close> produced by \<open>NewCluster\<close>, \<open>Export\<close> returns
  and \<open>NewClusterFromv1alpha1\<close> of the exported cluster returns, with a nil error, a
  cluster that equals \<open>c\<close> on the name, the five certificate authorities, the etcd and
  API server fields, the two lists of storage endpoints and the ordered peer list. Its
  CIDR holds the network number and the mask that \<open>networkNumberAndMask\<close> gives for the
  CIDR of \<open>c\<close>, in which an IPv4 network has 4 bytes each. The whole cluster is equal to
  \<open>c\<close> when the CIDR of \<open>c\<close> holds its address in 4 bytes, which is what \<open>ParseCIDR\<close>
  returns for a dotted IPv4 prefix, or holds an address that is not an IPv4-mapped
  one.

  As stated, the claim says the CIDR is reconstructed as well, for every cluster
  produced by \<open>NewCluster\<close>. For the prefix \<open>::ffff:10.0.0.0/112\<close> \<open>ParseCIDR\<close> returns the
  address and the mask in 16 bytes, \<open>NewCluster\<close> succeeds, the exported string is
  \<open>10.0.0.0/16\<close>, and the CIDR read back from it has 4 bytes each.
\<close>

theorem Export_round_trip:
  assumes "NewCluster g clusterName vpnCIDR e a = Inr (Some c, None)"
  shows "\<exists>v net. Export c = Inr v \<and> Cluster.VPNCIDR c = Some net \<and>
           NewClusterFromv1alpha1 v =
             Inr (Some (c\<lparr>Cluster.VPNCIDR := Some (canonical net)\<rparr>), None) \<and>
           (length (IP net) = 4 \<or> IP_To4 (IP net) = [] \<longrightarrow>
              NewClusterFromv1alpha1 v = Inr (Some c, None))"
proof -
  from NewCluster_fields [OF assms] obtain ip net cas api etcd where
    parse: "ParseCIDR vpnCIDR = Inr (ip, net)" and cidr: "Cluster.VPNCIDR c = Some net"
    and fields: "Cluster.CertificateAuthorities c = Some cas" "Cluster.APIServer c = Some api"
      "Cluster.EtcdServer c = Some etcd"
    by blast
  from Export_import [OF fields] cidr newVPNCIDR_round_trip(1) [OF parse]
  obtain v where v: "Export c = Inr v"
    "NewClusterFromv1alpha1 v = Inr (Some (c\<lparr>Cluster.VPNCIDR := Some (canonical net)\<rparr>), None)"
    by (auto simp: IPNet_ptr_String_def)
  have "NewClusterFromv1alpha1 v = Inr (Some c, None)"
    if "length (IP net) = 4 \<or> IP_To4 (IP net) = []"
    using newVPNCIDR_round_trip(2) [OF parse that] v(2) cidr by (cases c) simp
  with v cidr show ?thesis by blast
qed

theorem Export_round_trip_witness:
  "NewCluster demo_generators ''demo'' ''10.0.0.0/16'' [] [] = Inr (Some demo, None) \<and>
   (\<exists>v. Export demo = Inr v \<and> NewClusterFromv1alpha1 v = Inr (Some demo, None))"
proof -
  have "Cluster.VPNCIDR demo = Some net_10_16" "length (IP net_10_16) = 4"
    by (simp_all add: demo_def demo_Cluster_def net_10_16_def)
  with Export_round_trip [OF NewCluster_demo] NewCluster_demo show ?thesis by auto
qed

theorem Export_round_trip_counterexample:
  "NewCluster demo_generators ''demo'' ''::ffff:10.0.0.0/112'' [] [] =
     Inr (Some (demo_Cluster net_mapped ''10.0.0.1/32''), None) \<and>
   (\<exists>v. Export (demo_Cluster net_mapped ''10.0.0.1/32'') = Inr v \<and>
      NewClusterFromv1alpha1 v = Inr (Some (demo_Cluster net_10_16 ''10.0.0.1/32''), None)) \<and>
   Cluster.VPNCIDR (demo_Cluster net_10_16 ''10.0.0.1/32'') \<noteq>
     Cluster.VPNCIDR (demo_Cluster net_mapped ''10.0.0.1/32'')"
proof -
  have new: "NewCluster demo_generators ''demo'' ''::ffff:10.0.0.0/112'' [] [] =
     Inr (Some (demo_Cluster net_mapped ''10.0.0.1/32''), None)"
    by code_simp
  have "case Export (demo_Cluster net_mapped ''10.0.0.1/32'') of
          Inl p \<Rightarrow> False
        | Inr v \<Rightarrow> NewClusterFromv1alpha1 v =
            Inr (Some (demo_Cluster net_10_16 ''10.0.0.1/32''), None)"
    by code_simp
  then have round: "\<exists>v. Export (demo_Cluster net_mapped ''10.0.0.1/32'') = Inr v \<and>
      NewClusterFromv1alpha1 v = Inr (Some (demo_Cluster net_10_16 ''10.0.0.1/32''), None)"
    by (cases "Export (demo_Cluster net_mapped ''10.0.0.1/32'')") simp_all
  have "Cluster.VPNCIDR (demo_Cluster net_10_16 ''10.0.0.1/32'') \<noteq>
     Cluster.VPNCIDR (demo_Cluster net_mapped ''10.0.0.1/32'')"
    by (simp add: demo_Cluster_def net_10_16_def net_mapped_def)
  with new round show ?thesis by blast
qed

section \<open>The peers of a cluster\<close>

text \<open>
  Claim C3, as amended. For every cluster produced by \<open>NewCluster\<close> followed by any
  sequence of successful \<open>GenerateVPNPeer\<close> calls, with arbitrary name arguments, no two
  entries of the peer list share an address, and the names of the entries are
  \<open>control-plane-ingress\<close> followed by the names given to the calls, in that order. So no
  two entries share a name exactly when the given names are pairwise distinct and none
  of them is \<open>control-plane-ingress\<close>.

  As stated, the claim says that no two entries share a name, whatever the names
  given. \<open>GenerateVPNPeer\<close> does not look at the names of the peers: a call with the name
  of an existing peer succeeds and appends a second peer with that name.
\<close>

theorem peers_distinct_addresses:
  assumes "NewCluster g clusterName vpnCIDR e a = Inr (Some c, None)"
    and "GenerateVPNPeers calls c = Some c'"
  shows "distinct (map VPNPeer.Address (Cluster.VPNPeers c')) \<and>
         map VPNPeer.Name (Cluster.VPNPeers c') = ''control-plane-ingress'' # map snd calls"
  using allocated_distinct [OF allocated_GenerateVPNPeers [OF allocated_NewCluster [OF assms(1)] assms(2)]]
    GenerateVPNPeers_names [OF assms(2)] NewCluster_names [OF assms(1)]
  by simp

theorem peers_distinct_addresses_witness:
  "NewCluster demo_generators ''demo'' ''10.0.0.0/16'' [] [] = Inr (Some demo, None) \<and>
   (\<exists>c'. GenerateVPNPeers [(Inr (demo_Key ''1''), ''worker-1'')] demo = Some c' \<and>
      distinct (map VPNPeer.Address (Cluster.VPNPeers c')) \<and>
      map VPNPeer.Address (Cluster.VPNPeers c') = [''10.0.0.1/32'', ''10.0.0.2/32''] \<and>
      map VPNPeer.Name (Cluster.VPNPeers c') = [''control-plane-ingress'', ''worker-1''])"
proof -
  have addresses: "map VPNPeer.Address (Cluster.VPNPeers demo) = [''10.0.0.1/32'']"
    by code_simp
  from peers_distinct_addresses [OF NewCluster_demo GenerateVPNPeers_demo]
    NewCluster_demo GenerateVPNPeers_demo addresses
  show ?thesis by simp
qed

theorem peers_distinct_addresses_counterexample:
  "NewCluster demo_generators ''demo'' ''10.0.0.0/16'' [] [] = Inr (Some demo, None) \<and>
   (\<exists>c'. GenerateVPNPeers [(Inr (demo_Key ''1''), ''control-plane-ingress'')] demo = Some c' \<and>
      map VPNPeer.Name (Cluster.VPNPeers c') = [''control-plane-ingress'', ''control-plane-ingress''] \<and>
      \<not> distinct (map VPNPeer.Name (Cluster.VPNPeers c')))"
proof -
  have "GenerateVPNPeers [(Inr (demo_Key ''1''), ''control-plane-ingress'')] demo =
     Some (demo\<lparr>Cluster.VPNPeers := Cluster.VPNPeers demo @
            [\<lparr>VPNPeer.Name = ''control-plane-ingress'', VPNPeer.Address = ''10.0.0.2/32'',
              VPNPeer.PrivateKey = ''private-1'', VPNPeer.PublicKey = ''public-1''\<rparr>]\<rparr>)"
    by code_simp
  moreover have "map VPNPeer.Name (Cluster.VPNPeers demo) = [''control-plane-ingress'']"
    by code_simp
  ultimately show ?thesis using NewCluster_demo by simp
qed

end
